theory Spec2Isabelle
  imports Complex_Main "HOL-Library.Word"
begin

section \<open>The fiber (hair) scattering model of SORT: src/bsdf/hair.cpp\<close>

text \<open>
  The functions of \<^verbatim>\<open>hair.cpp\<close> are embedded one by one, under their own names.
  In the main model a C++ \<^verbatim>\<open>float\<close> is read as a real number and every arithmetic
  operation as the exact operation on reals; a division is the division of HOL, which is
  only meaningful where the divisor is not zero.  This is the model for the claims about
  which formula the code evaluates.  Two pieces of the code, the loops of \<^verbatim>\<open>Np\<close> and the
  lines of the constructor that fill \<^verbatim>\<open>m_v\<close>, are embedded a second time with the rounding
  of IEEE 754 binary32 arithmetic, for the claims whose truth depends on rounding
  (termination and strict positivity).  Infinities and NaN are outside this development.
  Loops are recursive functions with a termination proof, or partial functions where
  they need not end; an array is a list that is passed in and returned updated.
\<close>

subsection \<open>Helpers that hair.cpp takes from headers\<close>

text \<open>
  Modelled from the spec: the lobe count \<^verbatim>\<open>PMAX\<close> is declared in hair.h, which is not
  under src/; the spec gives it the value 3 (lobes 0, 1, 2 and the merged tail lobe).
\<close>
definition PMAX :: nat where
  "PMAX = 3"

text \<open>
  Modelled from the spec: \<^verbatim>\<open>SQR\<close> and \<^verbatim>\<open>ssqrt\<close> come from math/utils.h, which is not
  under src/.  \<^verbatim>\<open>SQR\<close> is the square; the spec describes \<^verbatim>\<open>ssqrt\<close> as the clamped square
  root that returns 0 for a negative argument.
\<close>
definition SQR :: "'a::times \<Rightarrow> 'a" where
  "SQR x = x * x"

definition ssqrt :: "real \<Rightarrow> real" where
  "ssqrt x = (if x \<le> 0 then 0 else sqrt x)"

text \<open>
  Modelled from the spec: the constants \<^verbatim>\<open>PI\<close> and \<^verbatim>\<open>TWO_PI\<close> are macros of a header that
  is not under src/; the spec reads them as \<open>\<pi>\<close> and \<open>2\<pi>\<close>.
\<close>
definition PI :: real where
  "PI = pi"

definition TWO_PI :: real where
  "TWO_PI = 2 * pi"

text \<open>
  Modelled from the spec: the colour/energy value \<^verbatim>\<open>Spectrum\<close> (spectrum.h is not under
  src/) is a small fixed-size tuple of channel intensities with channel-wise
  arithmetic.  Only the operators that \<^verbatim>\<open>Ap\<close> applies are given.
\<close>
record spectrum =
  red :: real
  green :: real
  blue :: real

definition spectrum_of :: "real \<Rightarrow> spectrum" where
  "spectrum_of f = \<lparr>red = f, green = f, blue = f\<rparr>"

definition spectrum_scale :: "spectrum \<Rightarrow> real \<Rightarrow> spectrum" where
  "spectrum_scale s f = \<lparr>red = red s * f, green = green s * f, blue = blue s * f\<rparr>"

definition spectrum_mul :: "spectrum \<Rightarrow> spectrum \<Rightarrow> spectrum" where
  "spectrum_mul s t = \<lparr>red = red s * red t, green = green s * green t, blue = blue s * blue t\<rparr>"

definition spectrum_div :: "spectrum \<Rightarrow> spectrum \<Rightarrow> spectrum" where
  "spectrum_div s t = \<lparr>red = red s / red t, green = green s / green t, blue = blue s / blue t\<rparr>"

definition spectrum_rsub :: "real \<Rightarrow> spectrum \<Rightarrow> spectrum" where
  "spectrum_rsub f s = \<lparr>red = f - red s, green = f - green s, blue = f - blue s\<rparr>"

text \<open>
  Modelled from the spec: \<^verbatim>\<open>DielectricFresnel\<close> (fresnel.h is not under src/) is the
  closed-form reflectance of a dielectric boundary for unpolarised light, a function of
  the incidence cosine and the two refractive indices.  The functions of hair.cpp take
  it as the parameter \<open>F\<close>; this definition is the instance used where a concrete value
  is computed.
\<close>
definition DielectricFresnel :: "real \<Rightarrow> real \<Rightarrow> real \<Rightarrow> real" where
  "DielectricFresnel cosI eta_i eta_t =
     (let cosT = ssqrt (1 - SQR (eta_i / eta_t) * (1 - SQR cosI));
          Rparl = (eta_t * cosI - eta_i * cosT) / (eta_t * cosI + eta_i * cosT);
          Rperp = (eta_i * cosI - eta_t * cosT) / (eta_i * cosI + eta_t * cosT)
      in (SQR Rparl + SQR Rperp) / 2)"

subsection \<open>Ap: the per-lobe attenuation energies\<close>

text \<open>
  \<^verbatim>\<open>for( auto i = 2 ; i < PMAX ; ++i ) ap[i] = ap[i-1] * T * f;\<close>
\<close>
function Ap_loop :: "real \<Rightarrow> spectrum \<Rightarrow> nat \<Rightarrow> spectrum list \<Rightarrow> spectrum list" where
  "Ap_loop f T i ap =
     (if i < PMAX
      then Ap_loop f T (i + 1) (ap[i := spectrum_scale (spectrum_mul (ap ! (i - 1)) T) f])
      else ap)"
  by pat_completeness auto
termination
  by (relation "measure (\<lambda>(f, T, i, ap). PMAX - i)") auto

text \<open>
  The array \<open>ap\<close> is the caller's \<^verbatim>\<open>Spectrum ap[PMAX + 1]\<close>; the function returns it
  with every entry written.
\<close>
definition Ap :: "(real \<Rightarrow> real \<Rightarrow> real \<Rightarrow> real) \<Rightarrow> real \<Rightarrow> real \<Rightarrow> real \<Rightarrow> spectrum
    \<Rightarrow> spectrum list \<Rightarrow> spectrum list" where
  "Ap F cosThetaO eta sinGammaT T ap =
     (let cosGammaO = ssqrt (1 - SQR sinGammaT);
          cosTheta = cosThetaO * cosGammaO;
          f = F cosTheta 1 eta;
          ap0 = ap[0 := spectrum_of f];
          ap1 = ap0[1 := spectrum_scale T (SQR (1 - f))];
          ap2 = Ap_loop f T 2 ap1
      in ap2[PMAX := spectrum_div (spectrum_mul (spectrum_scale (ap2 ! (PMAX - 1)) f) T)
                                  (spectrum_rsub 1 (spectrum_scale T f))])"

subsection \<open>I0, LogI0 and Mp: the longitudinal density\<close>

text \<open>
  The loop of \<^verbatim>\<open>I0\<close>, with its five variables.  \<^verbatim>\<open>i\<close> and \<^verbatim>\<open>i4\<close> are \<^verbatim>\<open>int\<close>
  (32-bit words, compared signed), \<^verbatim>\<open>ifact\<close> is \<^verbatim>\<open>int64_t\<close>; \<^verbatim>\<open>ifact *= i\<close> and
  \<^verbatim>\<open>i4 * SQR(ifact)\<close> widen the \<^verbatim>\<open>int\<close> operand to 64 bits, and the division converts
  the signed 64-bit product to a float.
\<close>
function I0_loop :: "real \<Rightarrow> 32 word \<Rightarrow> real \<Rightarrow> real \<Rightarrow> 64 word \<Rightarrow> 32 word \<Rightarrow> real" where
  "I0_loop x i val x2i ifact i4 =
     (if i <s 10
      then (let ifact' = (if 1 <s i then ifact * scast i else ifact);
                val' = val + x2i / real_of_int (sint (scast i4 * SQR ifact'))
            in I0_loop x (i + 1) val' (x2i * (x * x)) ifact' (i4 * 4))
      else val)"
  by pat_completeness auto
termination
proof (relation "measure (\<lambda>(x, i, val, x2i, ifact, i4). nat (10 - sint i))")
  show "wf (measure (\<lambda>(x, i, val, x2i, ifact, i4). nat (10 - sint i)))"
    by simp
next
  fix x val x2i :: real and i i4 :: "32 word" and ifact ifact' :: "64 word" and val' :: real
  assume lt: "i <s 10"
  then have b: "sint i < 10"
    by (simp add: word_sless_alt)
  have "sint (i + 1) = sint i + 1"
    using b sint_ge [of i] by (simp add: sint_word_add signed_take_bit_int_eq_self)
  then show "((x, i + 1, val', x2i * (x * x), ifact', i4 * 4), (x, i, val, x2i, ifact, i4))
      \<in> measure (\<lambda>(x, i, val, x2i, ifact, i4). nat (10 - sint i))"
    using b by simp
qed

definition I0 :: "real \<Rightarrow> real" where
  "I0 x = I0_loop x 0 0 1 1 1"

definition LogI0 :: "real \<Rightarrow> real" where
  "LogI0 x = (if x > 12 then x + 0.5 * (- ln TWO_PI + ln (1 / x) + 1 / (8 * x)) else ln (I0 x))"

definition Mp :: "real \<Rightarrow> real \<Rightarrow> real \<Rightarrow> real \<Rightarrow> real \<Rightarrow> real" where
  "Mp cosThetaI cosThetaO sinThetaI sinThetaO v =
     (let a = cosThetaI * cosThetaO / v;
          b = sinThetaI * sinThetaO / v
      in if v \<le> 0.1
         then exp (LogI0 a - b - 1 / v + 0.6931 + ln (1 / (2 * v)))
         else (exp (- b) * I0 a) / (sinh (1 / v) * 2 * v))"

subsection \<open>Binary32 arithmetic\<close>

text \<open>
  A finite \<^verbatim>\<open>float\<close> is a real number; \<open>f32_round x\<close> is the IEEE 754 binary32 number
  nearest to \<open>x\<close>, ties to the even significand (24-bit significand, least exponent
  \<open>-126\<close>, the subnormal numbers included), for \<open>x\<close> below the overflow threshold.  A
  float product, sum or difference is the rounded exact result.
\<close>
definition rne :: "real \<Rightarrow> int" where
  "rne y = (let n = \<lfloor>y\<rfloor>; d = y - of_int n
            in if d < 1 / 2 then n else if 1 / 2 < d then n + 1 else if even n then n else n + 1)"

definition f32_ulp :: "real \<Rightarrow> real" where
  "f32_ulp x = 2 powr of_int (max \<lfloor>log 2 \<bar>x\<bar>\<rfloor> (- 126) - 23)"

definition f32_round :: "real \<Rightarrow> real" where
  "f32_round x = (if x = 0 then 0 else of_int (rne (x / f32_ulp x)) * f32_ulp x)"

definition f32_mul :: "real \<Rightarrow> real \<Rightarrow> real" where
  "f32_mul a b = f32_round (a * b)"

definition f32_add :: "real \<Rightarrow> real \<Rightarrow> real" where
  "f32_add a b = f32_round (a + b)"

definition f32_sub :: "real \<Rightarrow> real \<Rightarrow> real" where
  "f32_sub a b = f32_round (a - b)"

subsection \<open>Phi, the logistic functions and Np: the azimuthal density\<close>





text \<open>
  \<^verbatim>\<open>while( dphi > PI ) dphi -= TWO_PI;\<close> and \<^verbatim>\<open>while( dphi < -PI ) dphi += TWO_PI;\<close>
  Whether and where these loops end depends on the rounding of the float subtraction
  and addition, so they are embedded in binary32 arithmetic.  A loop that does not end
  has the value \<open>None\<close>.
\<close>
partial_function (option) Np_sub_f32 :: "real \<Rightarrow> real \<Rightarrow> real \<Rightarrow> real option" where
  "Np_sub_f32 PIf TWO_PIf dphi =
     (if dphi > PIf then Np_sub_f32 PIf TWO_PIf (f32_round (dphi - TWO_PIf)) else Some dphi)"

partial_function (option) Np_add_f32 :: "real \<Rightarrow> real \<Rightarrow> real \<Rightarrow> real option" where
  "Np_add_f32 PIf TWO_PIf dphi =
     (if dphi < - PIf then Np_add_f32 PIf TWO_PIf (f32_round (dphi + TWO_PIf)) else Some dphi)"

text \<open>The first loop, then the second one on its result.\<close>
definition Np_reduce_f32 :: "real \<Rightarrow> real \<Rightarrow> real \<Rightarrow> real option" where
  "Np_reduce_f32 PIf TWO_PIf dphi =
     (case Np_sub_f32 PIf TWO_PIf dphi of None \<Rightarrow> None | Some d \<Rightarrow> Np_add_f32 PIf TWO_PIf d)"



subsection \<open>The lobe selection of Hair::sample\_f\<close>

text \<open>
  \<^verbatim>\<open>for( ; p < PMAX ; ++p ){ if( r < apPdf[p] ) break; r -= apPdf[p]; }\<close>
  started at \<^verbatim>\<open>p = 0\<close>; the value is the \<^verbatim>\<open>p\<close> that indexes \<^verbatim>\<open>m_v\<close> afterwards.  The draw
  and the probabilities are floats, and \<^verbatim>\<open>r -= apPdf[p]\<close> is a float subtraction.
\<close>
function sample_f_lobe :: "real list \<Rightarrow> real \<Rightarrow> nat \<Rightarrow> nat" where
  "sample_f_lobe apPdf r p =
     (if p < PMAX
      then (if r < apPdf ! p then p else sample_f_lobe apPdf (f32_sub r (apPdf ! p)) (p + 1))
      else p)"
  by pat_completeness auto
termination
  by (relation "measure (\<lambda>(apPdf, r, p). PMAX - p)") auto

subsection \<open>The constructor Hair::Hair\<close>

text \<open>
  Modelled from the spec: \<^verbatim>\<open>Pow<N>\<close> is a template of math/utils.h, which is not under
  src/; the spec calls the expressions it occurs in polynomials of the roughness, so
  \<^verbatim>\<open>Pow<N>(x)\<close> is the \<open>N\<close>-th power of \<open>x\<close> (named \<open>PowN\<close> here, since \<open>Pow\<close> is
  the powerset of HOL).
\<close>
definition PowN :: "nat \<Rightarrow> real \<Rightarrow> real" where
  "PowN N x = x ^ N"

text \<open>
  The members that the constructor writes.  Their declarations are in hair.h, which is
  not under src/: \<^verbatim>\<open>m_v\<close> has \<^verbatim>\<open>PMAX + 1\<close> entries, \<^verbatim>\<open>m_sin2kAlpha\<close> and \<^verbatim>\<open>m_cos2kAlpha\<close>
  have \<^verbatim>\<open>PMAX\<close> entries.
\<close>
record hair =
  m_sigma :: spectrum
  m_lRoughness :: real
  m_aRoughness :: real
  m_eta :: real
  m_v :: "real list"
  m_sin2kAlpha :: "real list"
  m_cos2kAlpha :: "real list"
  m_scale :: real
  m_etaSqr :: real

text \<open>\<^verbatim>\<open>for (int p = 3; p <= PMAX; ++p) m_v[p] = m_v[2];\<close>\<close>
function Hair_v_loop :: "nat \<Rightarrow> real list \<Rightarrow> real list" where
  "Hair_v_loop p v = (if p \<le> PMAX then Hair_v_loop (p + 1) (v[p := v ! 2]) else v)"
  by pat_completeness auto
termination
  by (relation "measure (\<lambda>(p, v). PMAX + 1 - p)") auto

text \<open>
  \<^verbatim>\<open>for( auto i = 1 ; i < PMAX ; ++i ){ m_sin2kAlpha[i] = ...; m_cos2kAlpha[i] = ...; }\<close>
\<close>
function Hair_alpha_loop :: "nat \<Rightarrow> real list \<times> real list \<Rightarrow> real list \<times> real list" where
  "Hair_alpha_loop i (s, c) =
     (if i < PMAX
      then Hair_alpha_loop (i + 1)
             (s[i := 2 * c ! (i - 1) * s ! (i - 1)],
              c[i := SQR (c ! (i - 1)) - SQR (s ! (i - 1))])
      else (s, c))"
  by pat_completeness auto
termination
  by (relation "measure (\<lambda>(i, sc). PMAX - i)") auto

text \<open>
  The constructor takes the storage of the object as it is before construction
  (\<open>this\<close>, whose arrays hold arbitrary values) and returns the constructed object.
  The arguments \<^verbatim>\<open>weight\<close> and \<^verbatim>\<open>doubleSided\<close> only go to the base class \<^verbatim>\<open>Bxdf\<close>.
\<close>
definition Hair :: "hair \<Rightarrow> spectrum \<Rightarrow> real \<Rightarrow> real \<Rightarrow> real \<Rightarrow> hair" where
  "Hair this absorption lRoughness aRoughness ior =
     (let v = (m_v this)[0 := SQR (0.726 * lRoughness + 0.812 * SQR lRoughness
                                    + 3.7 * PowN 20 lRoughness)];
          v = v[1 := 0.25 * v ! 0];
          v = v[2 := 4 * v ! 0];
          v = Hair_v_loop 3 v;
          alpha = 2 / 180;
          s = (m_sin2kAlpha this)[0 := sin alpha];
          c = (m_cos2kAlpha this)[0 := ssqrt (1 - SQR (s ! 0))];
          (s, c) = Hair_alpha_loop 1 (s, c);
          SqrtPiOver8 = 0.626657069;
          scale = SqrtPiOver8 * (0.265 * aRoughness + 1.194 * SQR aRoughness
                                   + 5.372 * PowN 22 aRoughness)
      in \<lparr>m_sigma = absorption, m_lRoughness = lRoughness, m_aRoughness = aRoughness,
          m_eta = ior, m_v = v, m_sin2kAlpha = s, m_cos2kAlpha = c, m_scale = scale,
          m_etaSqr = SQR ior\<rparr>)"

subsection \<open>The tilted longitudinal angle in Hair::sample\_f and in Hair::pdf\<close>

text \<open>
  Lines 218 to 232 of \<^verbatim>\<open>Hair::sample_f\<close>: the sampled pair \<^verbatim>\<open>(sinThetaI, cosThetaI)\<close> is
  tilted for the selected lobe \<open>p\<close> and the tilted pair replaces it, for the direction
  \<^verbatim>\<open>wi\<close> and for the density that follows.
\<close>
definition sample_f_tilt :: "hair \<Rightarrow> nat \<Rightarrow> real \<Rightarrow> real \<Rightarrow> real \<times> real" where
  "sample_f_tilt this p sinThetaI cosThetaI =
     (if p = 0
      then (sinThetaI * m_cos2kAlpha this ! 1 + cosThetaI * m_sin2kAlpha this ! 1,
            cosThetaI * m_cos2kAlpha this ! 1 - sinThetaI * m_sin2kAlpha this ! 1)
      else if p = 1
      then (sinThetaI * m_cos2kAlpha this ! 0 - cosThetaI * m_sin2kAlpha this ! 0,
            cosThetaI * m_cos2kAlpha this ! 0 + sinThetaI * m_sin2kAlpha this ! 0)
      else if p = 2
      then (sinThetaI * m_cos2kAlpha this ! 2 - cosThetaI * m_sin2kAlpha this ! 2,
            cosThetaI * m_cos2kAlpha this ! 2 + sinThetaI * m_sin2kAlpha this ! 2)
      else (sinThetaI, cosThetaI))"

text \<open>
  Lines 279 and 280 of \<^verbatim>\<open>Hair::pdf\<close>: the cosine that \<^verbatim>\<open>Hair::pdf\<close> takes from the
  component \<^verbatim>\<open>wi.x\<close> of the incoming direction.
\<close>
definition pdf_cosThetaI :: "real \<Rightarrow> real" where
  "pdf_cosThetaI wi_x = (let sinThetaI = wi_x in ssqrt (1 - SQR sinThetaI))"

subsection \<open>The constructor in binary32 arithmetic\<close>

text \<open>
  Whether the entries of \<^verbatim>\<open>m_v\<close> are positive depends on underflow, so the lines of the
  constructor that fill \<^verbatim>\<open>m_v\<close> are given a second time in binary32 arithmetic: every
  float product and sum is rounded, the constants are the float literals
  \<^verbatim>\<open>0.726f\<close>, \<^verbatim>\<open>0.812f\<close> and \<^verbatim>\<open>3.7f\<close>, and \<^verbatim>\<open>.25 * m_v[0]\<close> is an exact double product
  rounded on the store to \<^verbatim>\<open>m_v[1]\<close>.  \<^verbatim>\<open>Pow<20>\<close> is not under src/ and is the parameter
  \<open>Pow20f\<close>.
\<close>
definition Hair_v_f32 :: "(real \<Rightarrow> real) \<Rightarrow> real list \<Rightarrow> real \<Rightarrow> real list" where
  "Hair_v_f32 Pow20f v lRoughness =
     (let s = f32_add (f32_add (f32_mul (f32_round 0.726) lRoughness)
                               (f32_mul (f32_round 0.812) (f32_mul lRoughness lRoughness)))
                      (f32_mul (f32_round 3.7) (Pow20f lRoughness));
          v = v[0 := f32_mul s s];
          v = v[1 := f32_round (0.25 * v ! 0)];
          v = v[2 := f32_mul 4 (v ! 0)]
      in Hair_v_loop 3 v)"

text \<open>
  The lines that fill the tilt arrays, in binary32 arithmetic.  The square root of
  \<^verbatim>\<open>ssqrt\<close> is the correctly rounded one; \<^verbatim>\<open>2 * m_cos2kAlpha[i-1] * m_sin2kAlpha[i-1]\<close>
  is two float products, and \<^verbatim>\<open>SQR(..) - SQR(..)\<close> two float products and a float
  subtraction.  The value that the library function \<^verbatim>\<open>sin\<close> returns for \<^verbatim>\<open>alpha\<close> is the
  parameter \<open>sin_alpha\<close>.
\<close>
definition f32_sqrt :: "real \<Rightarrow> real" where
  "f32_sqrt x = f32_round (ssqrt x)"

function Hair_alpha_loop_f32 :: "nat \<Rightarrow> real list \<times> real list \<Rightarrow> real list \<times> real list" where
  "Hair_alpha_loop_f32 i (s, c) =
     (if i < PMAX
      then Hair_alpha_loop_f32 (i + 1)
             (s[i := f32_mul (f32_mul 2 (c ! (i - 1))) (s ! (i - 1))],
              c[i := f32_sub (f32_mul (c ! (i - 1)) (c ! (i - 1)))
                             (f32_mul (s ! (i - 1)) (s ! (i - 1)))])
      else (s, c))"
  by pat_completeness auto
termination
  by (relation "measure (\<lambda>(i, sc). PMAX - i)") auto

definition Hair_alpha_f32 :: "real \<Rightarrow> real list \<Rightarrow> real list \<Rightarrow> real list \<times> real list" where
  "Hair_alpha_f32 sin_alpha s c =
     (let s = s[0 := sin_alpha];
          c = c[0 := f32_sqrt (f32_sub 1 (f32_mul (s ! 0) (s ! 0)))]
      in Hair_alpha_loop_f32 1 (s, c))"

section \<open>The densities as the specification words them\<close>

text \<open>
  The 10-term power series of the modified Bessel function of order 0,
  \<open>\<Sum>i<10. (x\<^sup>2)\<^sup>i / (4\<^sup>i (i!)\<^sup>2)\<close>, and the large-argument expansion of its logarithm.
\<close>
definition bessel_series10 :: "real \<Rightarrow> real" where
  "bessel_series10 x = (\<Sum>i<10. (x\<^sup>2) ^ i / (4 ^ i * (fact i)\<^sup>2))"

definition bessel_log_asymptotic :: "real \<Rightarrow> real" where
  "bessel_log_asymptotic x = x + (- ln (2 * pi) + ln (1 / x) + 1 / (8 * x)) / 2"

text \<open>
  The longitudinal density with the branches as the specification lists them: the
  direct series for \<open>v > 0.1\<close>; for \<open>v \<le> 0.1\<close> the exponential of a combined exponent
  that holds the logarithm of the series for an argument \<open>\<le> 12\<close> and the asymptotic
  expansion for an argument \<open>> 12\<close>.
\<close>
definition Mp_spec :: "real \<Rightarrow> real \<Rightarrow> real \<Rightarrow> real \<Rightarrow> real \<Rightarrow> real" where
  "Mp_spec cosThetaI cosThetaO sinThetaI sinThetaO v =
     (let a = cosThetaI * cosThetaO / v;
          b = sinThetaI * sinThetaO / v
      in if v > 1 / 10
         then exp (- b) * bessel_series10 a / (sinh (1 / v) * 2 * v)
         else exp ((if a \<le> 12 then ln (bessel_series10 a) else bessel_log_asymptotic a)
                    - b - 1 / v + 6931 / 10000 + ln (1 / (2 * v))))"





section \<open>Properties\<close>

subsection \<open>Ap\<close>

lemma Ap_loop_2: "Ap_loop f T 2 ap = ap[2 := spectrum_scale (spectrum_mul (ap ! 1) T) f]"
  by (subst Ap_loop.simps, subst Ap_loop.simps) (simp add: PMAX_def)

text \<open>
  The model of the Fresnel term reproduces the value that the specification quotes for
  normal incidence on a fiber of refractive index 1.55 (about 0.045).
\<close>
lemma DielectricFresnel_normal_incidence: "DielectricFresnel 1 1 (31 / 20) = (11 / 51)\<^sup>2"
  by (simp add: DielectricFresnel_def Let_def SQR_def ssqrt_def power2_eq_square)

text \<open>
  Claim C4, as stated: lobe 1 of \<^verbatim>\<open>Ap\<close> is transmittance-squared times one-minus-Fresnel.
  At normal incidence (\<open>cosThetaO = 1\<close>, \<open>sinGammaT = 0\<close>), \<open>eta = 1.55\<close> and a
  transmittance of 1 in every channel the code stores \<open>(1 - f)\<^sup>2\<close> in lobe 1, which is
  not \<open>1 - f\<close>.
\<close>
theorem Ap_lobe1_counterexample:
  "Ap DielectricFresnel 1 (31 / 20) 0 (spectrum_of 1) (replicate (PMAX + 1) (spectrum_of 0)) ! 1
     \<noteq> spectrum_scale (spectrum_mul (spectrum_of 1) (spectrum_of 1))
          (1 - DielectricFresnel (1 * ssqrt (1 - SQR 0)) 1 (31 / 20))"
  by (simp add: Ap_def Let_def Ap_loop_2 PMAX_def DielectricFresnel_normal_incidence
      spectrum_of_def spectrum_scale_def spectrum_mul_def SQR_def ssqrt_def power2_eq_square)

text \<open>
  Claim C4, amended: for every incidence cosine, \<open>eta\<close>, refraction sine, transmittance
  \<open>T\<close> and Fresnel function \<open>F\<close>, with \<open>f\<close> the Fresnel reflectance at the cosine
  \<open>cosThetaO * ssqrt (1 - sinGammaT\<^sup>2)\<close>: lobe 0 of \<^verbatim>\<open>Ap\<close> is \<open>f\<close>; lobe 1 is the
  transmittance times the square of one-minus-Fresnel; each lobe \<open>p\<close> in \<open>2..PMAX-1\<close> is
  the previous lobe times transmittance times Fresnel; lobe \<open>PMAX\<close> is the previous lobe
  times Fresnel times transmittance divided by (1 minus transmittance times Fresnel).
\<close>
theorem Ap_chain:
  assumes len: "length ap = PMAX + 1"
  shows "let f = F (cosThetaO * ssqrt (1 - SQR sinGammaT)) 1 eta;
             A = Ap F cosThetaO eta sinGammaT T ap
         in A ! 0 = spectrum_of f
          \<and> A ! 1 = spectrum_scale T (SQR (1 - f))
          \<and> (\<forall>p. 2 \<le> p \<and> p < PMAX \<longrightarrow> A ! p = spectrum_scale (spectrum_mul (A ! (p - 1)) T) f)
          \<and> A ! PMAX = spectrum_div (spectrum_mul (spectrum_scale (A ! (PMAX - 1)) f) T)
                                    (spectrum_rsub 1 (spectrum_scale T f))"
proof -
  have p2: "p = 2" if "2 \<le> p" "p < 3" for p :: nat
    using that by simp
  show ?thesis
    using len by (auto simp: Ap_def Let_def Ap_loop_2 PMAX_def dest!: p2)
qed

theorem Ap_chain_witness:
  "length (replicate (PMAX + 1) (spectrum_of 0)) = PMAX + 1
   \<and> (let A = Ap DielectricFresnel 1 (31 / 20) 0 (spectrum_of (1 / 2))
                 (replicate (PMAX + 1) (spectrum_of 0))
      in A ! 0 = spectrum_of ((11 / 51)\<^sup>2)
       \<and> A ! 1 = spectrum_of (1 / 2 * (1 - (11 / 51)\<^sup>2)\<^sup>2)
       \<and> A ! 2 = spectrum_of (1 / 2 * (1 - (11 / 51)\<^sup>2)\<^sup>2 * (1 / 2) * (11 / 51)\<^sup>2)
       \<and> A ! 3 = spectrum_of (1 / 2 * (1 - (11 / 51)\<^sup>2)\<^sup>2 * (1 / 2) * (11 / 51)\<^sup>2
                        * (11 / 51)\<^sup>2 * (1 / 2) / (1 - 1 / 2 * (11 / 51)\<^sup>2)))"
proof -
  let ?ap = "replicate (PMAX + 1) (spectrum_of 0)"
  let ?A = "Ap DielectricFresnel 1 (31 / 20) 0 (spectrum_of (1 / 2)) ?ap"
  have len: "length ?ap = PMAX + 1"
    by simp
  have f: "DielectricFresnel (1 * ssqrt (1 - SQR 0)) 1 (31 / 20) = (11 / 51)\<^sup>2"
    by (simp add: DielectricFresnel_normal_incidence SQR_def ssqrt_def)
  have three: "(2::nat) < PMAX" "PMAX - 1 = 2" "PMAX = 3"
    by (simp_all add: PMAX_def)
  from Ap_chain [OF len, of DielectricFresnel 1 0 "31 / 20" "spectrum_of (1 / 2)"]
  have "?A ! 0 = spectrum_of ((11 / 51)\<^sup>2)"
    and "?A ! 1 = spectrum_scale (spectrum_of (1 / 2)) (SQR (1 - (11 / 51)\<^sup>2))"
    and "?A ! 2 = spectrum_scale (spectrum_mul (?A ! 1) (spectrum_of (1 / 2))) ((11 / 51)\<^sup>2)"
    and "?A ! 3 = spectrum_div (spectrum_mul (spectrum_scale (?A ! 2) ((11 / 51)\<^sup>2))
                                   (spectrum_of (1 / 2)))
                      (spectrum_rsub 1 (spectrum_scale (spectrum_of (1 / 2)) ((11 / 51)\<^sup>2)))"
    unfolding Let_def f using three by simp_all
  then have "?A ! 0 = spectrum_of ((11 / 51)\<^sup>2)"
    and "?A ! 1 = spectrum_of (1 / 2 * (1 - (11 / 51)\<^sup>2)\<^sup>2)"
    and "?A ! 2 = spectrum_of (1 / 2 * (1 - (11 / 51)\<^sup>2)\<^sup>2 * (1 / 2) * (11 / 51)\<^sup>2)"
    and "?A ! 3 = spectrum_of (1 / 2 * (1 - (11 / 51)\<^sup>2)\<^sup>2 * (1 / 2) * (11 / 51)\<^sup>2
                        * (11 / 51)\<^sup>2 * (1 / 2) / (1 - 1 / 2 * (11 / 51)\<^sup>2))"
    by (simp_all add: spectrum_of_def spectrum_scale_def spectrum_mul_def spectrum_div_def
        spectrum_rsub_def SQR_def power2_eq_square)
  then show ?thesis
    unfolding Let_def using len by blast
qed

lemma DielectricFresnel_grazing: "DielectricFresnel 0 1 (31 / 20) = 1"
  by (simp add: DielectricFresnel_def Let_def SQR_def ssqrt_def)

text \<open>
  Claim C3: the lobe probabilities of \<^verbatim>\<open>ComputeApPdf\<close> are non-negative and sum to 1.
  For the direction \<open>(1, 0, 0)\<close> along the fiber and zero absorption, \<^verbatim>\<open>ComputeApPdf\<close> calls
  \<^verbatim>\<open>Ap\<close> with \<open>cosThetaO = 0\<close>, \<open>sinGammaT = 0\<close> and a transmittance of 1; the Fresnel
  reflectance is 1 and the lobes 0, 1 and 2 are 1, 0 and 0.  The fourth lobe, the
  quotient \<open>0 / 0\<close>, is not a number in float arithmetic, and neither are the sum and
  the four probabilities.
\<close>
theorem Ap_grazing_lobes:
  "(let A = Ap DielectricFresnel 0 (31 / 20) 0 (spectrum_of 1) (replicate (PMAX + 1) (spectrum_of 0))
    in A ! 0 = spectrum_of 1 \<and> A ! 1 = spectrum_of 0 \<and> A ! 2 = spectrum_of 0)"
  by (simp add: Ap_def Let_def Ap_loop_2 PMAX_def DielectricFresnel_grazing
      spectrum_of_def spectrum_scale_def spectrum_mul_def SQR_def ssqrt_def)

text \<open>
  Claim C5: \<^verbatim>\<open>Hair::f\<close> and \<^verbatim>\<open>Hair::pdf\<close> return finite results at exact grazing incidence.
  For the outgoing direction \<open>(1, 0, 0)\<close> and zero absorption they call \<^verbatim>\<open>Ap\<close> with
  \<open>cosThetaO = 0\<close>, \<open>sinGammaT = 0\<close> and a transmittance of 1.  The Fresnel reflectance is
  then 1, and in the last statement of \<^verbatim>\<open>Ap\<close>,
  \<^verbatim>\<open>ap[PMAX] = ap[PMAX - 1] * f * T / ( 1.0f - T * f )\<close>, the dividend and the divisor are
  both 0 in every channel: the float quotient is NaN.
\<close>
theorem Ap_grazing_zero_by_zero:
  "(let f = DielectricFresnel (0 * ssqrt (1 - SQR 0)) 1 (31 / 20);
        T = spectrum_of 1;
        A = Ap DielectricFresnel 0 (31 / 20) 0 T (replicate (PMAX + 1) (spectrum_of 0))
    in f = 1
     \<and> spectrum_mul (spectrum_scale (A ! (PMAX - 1)) f) T = spectrum_of 0
     \<and> spectrum_rsub 1 (spectrum_scale T f) = spectrum_of 0)"
  by (simp add: Ap_def Let_def Ap_loop_2 PMAX_def DielectricFresnel_grazing
      spectrum_of_def spectrum_scale_def spectrum_mul_def spectrum_rsub_def SQR_def ssqrt_def)

subsection \<open>Mp\<close>

text \<open>
  Ten rounds of the loop of \<^verbatim>\<open>I0\<close>, with the 32- and 64-bit integer arithmetic carried
  out: no product wraps, and the value is the 10-term series.
\<close>
lemma I0_unroll: "I0 x = 1 + x^2/4 + x^4/64 + x^6/2304 + x^8/147456 + x^10/14745600 + x^12/2123366400 + x^14/416179814400 + x^16/106542032486400 + x^18/34519618525593600"
  by (simp add: I0_def I0_loop.simps[of x] Let_def SQR_def word_sless_alt power2_eq_square power_numeral_reduce)

lemma bessel_unroll: "bessel_series10 x = 1 + x^2/4 + x^4/64 + x^6/2304 + x^8/147456 + x^10/14745600 + x^12/2123366400 + x^14/416179814400 + x^16/106542032486400 + x^18/34519618525593600"
  by (simp add: bessel_series10_def lessThan_nat_numeral lessThan_Suc fact_numeral power_mult[symmetric])

lemma I0_series: "I0 x = bessel_series10 x"
  by (simp only: I0_unroll bessel_unroll)

text \<open>
  Claim C7: for every variance \<open>v\<close> (and all angles), \<^verbatim>\<open>Mp\<close> is the direct 10-term
  power-series evaluation when \<open>v > 0.1\<close>; for \<open>v \<le> 0.1\<close> it is the exponential of the
  combined exponent formed in the log domain, with the logarithm of the series taken
  directly for an argument \<open>\<le> 12\<close> and the asymptotic expansion for an argument \<open>> 12\<close>.
\<close>
theorem Mp_branches:
  "Mp cosThetaI cosThetaO sinThetaI sinThetaO v = Mp_spec cosThetaI cosThetaO sinThetaI sinThetaO v"
  by (simp add: Mp_def Mp_spec_def Let_def LogI0_def I0_series bessel_log_asymptotic_def TWO_PI_def not_less)

subsection \<open>Binary32 arithmetic\<close>

lemma rne_error: "\<bar>of_int (rne y) - y\<bar> \<le> 1 / 2"
  unfolding rne_def Let_def by (simp; linarith)

lemma rne_le_int: "y \<le> of_int N \<Longrightarrow> rne y \<le> N"
proof -
  assume le: "y \<le> of_int N"
  show ?thesis
  proof (cases "y = of_int N")
    case True
    then show ?thesis by (simp add: rne_def)
  next
    case False
    then have "y < of_int N" using le by simp
    then have "\<lfloor>y\<rfloor> < N" by (simp add: floor_less_iff)
    then show ?thesis unfolding rne_def Let_def by (simp; linarith)
  qed
qed

lemma rne_ge_int: "of_int N \<le> y \<Longrightarrow> N \<le> rne y"
proof -
  assume "of_int N \<le> y"
  then have "N \<le> \<lfloor>y\<rfloor>" by (simp add: le_floor_iff)
  then show ?thesis unfolding rne_def Let_def by (simp; linarith)
qed

lemma rne_zero: "\<bar>y\<bar> < 1 / 2 \<Longrightarrow> rne y = 0"
proof -
  assume a: "\<bar>y\<bar> < 1 / 2"
  show ?thesis
  proof (cases "0 \<le> y")
    case True
    then have "\<lfloor>y\<rfloor> = 0" using a by (intro floor_unique) simp_all
    then show ?thesis using a True by (simp add: rne_def Let_def)
  next
    case False
    then have "\<lfloor>y\<rfloor> = - 1" using a by (intro floor_unique) simp_all
    then show ?thesis using a False by (simp add: rne_def Let_def)
  qed
qed

lemma rne_up:
  assumes "of_int n + 1 / 2 < y" "y < of_int n + 1"
  shows "rne y = n + 1"
proof -
  have "\<lfloor>y\<rfloor> = n"
    using assms by (intro floor_unique) simp_all
  then show ?thesis
    using assms by (simp add: rne_def Let_def)
qed

lemma rne_down:
  assumes "of_int n \<le> y" "y < of_int n + 1 / 2"
  shows "rne y = n"
proof -
  have "\<lfloor>y\<rfloor> = n"
    using assms by (intro floor_unique) simp_all
  then show ?thesis
    using assms by (simp add: rne_def Let_def)
qed

lemma rne_of_int: "rne (of_int j) = j"
  by (simp add: rne_def)

lemma f32_ulp_pos: "0 < f32_ulp x"
  by (simp add: f32_ulp_def)

lemma f32_ulp_le:
  assumes "x \<noteq> 0" "\<bar>x\<bar> < 2 powr of_int (k + 1)" "- 126 \<le> k"
  shows "f32_ulp x \<le> 2 powr of_int (k - 23)"
proof -
  have "log 2 \<bar>x\<bar> < of_int (k + 1)"
    using assms(1,2) by (simp add: log_less_iff)
  then have "\<lfloor>log 2 \<bar>x\<bar>\<rfloor> \<le> k"
    by (simp add: floor_less_iff[symmetric] del: of_int_add)
  then have "max \<lfloor>log 2 \<bar>x\<bar>\<rfloor> (- 126) - 23 \<le> k - 23"
    using assms(3) by simp
  then show ?thesis
    unfolding f32_ulp_def by (intro powr_mono) simp_all
qed

lemma f32_ulp_eq:
  assumes "2 powr of_int k \<le> \<bar>x\<bar>" "\<bar>x\<bar> < 2 powr of_int (k + 1)" "- 126 \<le> k"
  shows "f32_ulp x = 2 powr of_int (k - 23)"
proof -
  have pos: "0 < \<bar>x\<bar>"
    using assms(1) powr_gt_zero[of 2 "of_int k"] by linarith
  have "\<lfloor>log 2 \<bar>x\<bar>\<rfloor> = k"
    using assms(1,2) pos by (subst floor_log_eq_powr_iff) simp_all
  then show ?thesis
    using assms(3) by (simp add: f32_ulp_def)
qed

lemma f32_round_error: "\<bar>f32_round x - x\<bar> \<le> f32_ulp x / 2"
proof (cases "x = 0")
  case True
  then show ?thesis using f32_ulp_pos[of 0] by (simp add: f32_round_def)
next
  case False
  define u where "u = f32_ulp x"
  have u: "0 < u" by (simp add: u_def f32_ulp_pos)
  have "f32_round x - x = (of_int (rne (x / u)) - x / u) * u"
    using False u by (simp add: f32_round_def u_def[symmetric] field_simps)
  then have "\<bar>f32_round x - x\<bar> = \<bar>of_int (rne (x / u)) - x / u\<bar> * u"
    using u by (simp add: abs_mult)
  also have "\<dots> \<le> (1 / 2) * u"
    using rne_error[of "x / u"] u by (intro mult_right_mono) simp_all
  finally show ?thesis by (simp add: u_def)
qed

lemma f32_round_error_half:
  assumes "\<bar>x\<bar> < 2 ^ 24"
  shows "\<bar>f32_round x - x\<bar> \<le> 1 / 2"
proof (cases "x = 0")
  case True
  then show ?thesis by (simp add: f32_round_def)
next
  case False
  have "f32_ulp x \<le> 2 powr of_int (23 - 23)"
    using False assms by (intro f32_ulp_le) simp_all
  then have "f32_ulp x \<le> 1" by simp
  then show ?thesis using f32_round_error[of x] by linarith
qed

lemma f32_round_error_small:
  assumes "\<bar>x\<bar> < 2"
  shows "\<bar>f32_round x - x\<bar> \<le> 1 / 2 ^ 24"
proof (cases "x = 0")
  case True
  then show ?thesis by (simp add: f32_round_def)
next
  case False
  have "f32_ulp x \<le> 2 powr of_int (0 - 23)"
    using False assms by (intro f32_ulp_le) simp_all
  then have "f32_ulp x \<le> 1 / 2 ^ 23"
    by (simp add: powr_minus_divide)
  then show ?thesis
    using f32_round_error[of x] by simp
qed

lemma f32_round_error_4:
  assumes "\<bar>x\<bar> < 4"
  shows "\<bar>f32_round x - x\<bar> \<le> 1 / 2 ^ 23"
proof (cases "x = 0")
  case True
  then show ?thesis by (simp add: f32_round_def)
next
  case False
  have "f32_ulp x \<le> 2 powr of_int (1 - 23)"
    using False assms by (intro f32_ulp_le) simp_all
  then have "f32_ulp x \<le> 1 / 2 ^ 22"
    by (simp add: powr_minus_divide)
  then show ?thesis
    using f32_round_error[of x] by simp
qed

lemma f32_round_nonneg: "0 \<le> x \<Longrightarrow> 0 \<le> f32_round x"
proof -
  assume "0 \<le> x"
  then have "of_int 0 \<le> x / f32_ulp x"
    using f32_ulp_pos[of x] by simp
  then have "0 \<le> rne (x / f32_ulp x)" by (rule rne_ge_int)
  then show ?thesis
    using f32_ulp_pos[of x] by (simp add: f32_round_def)
qed

lemma f32_round_underflow:
  assumes "\<bar>x\<bar> < 1 / 2 ^ 150"
  shows "f32_round x = 0"
proof (cases "x = 0")
  case True
  then show ?thesis by (simp add: f32_round_def)
next
  case False
  have "\<bar>x\<bar> < 2 powr of_int (- 150)"
    using assms by (simp add: powr_minus_divide)
  then have "log 2 \<bar>x\<bar> < of_int (- 150)"
    using False by (simp add: log_less_iff)
  then have "\<lfloor>log 2 \<bar>x\<bar>\<rfloor> < - 150"
    by (simp add: floor_less_iff)
  then have "max \<lfloor>log 2 \<bar>x\<bar>\<rfloor> (- 126) = - 126"
    by simp
  then have "f32_ulp x = 2 powr of_int (- 126 - 23)"
    by (simp only: f32_ulp_def)
  then have u: "f32_ulp x = 1 / 2 ^ 149"
    by (simp add: powr_minus_divide)
  have "\<bar>x / f32_ulp x\<bar> < 1 / 2"
    using assms by (simp add: u abs_mult)
  then have "rne (x / f32_ulp x) = 0" by (rule rne_zero)
  then show ?thesis by (simp add: f32_round_def)
qed

lemma f32_round_ge_pow2:
  assumes "1 / 2 ^ n \<le> x" "n \<le> 149"
  shows "1 / 2 ^ n \<le> f32_round x"
proof (cases "- 126 \<le> \<lfloor>log 2 \<bar>x\<bar>\<rfloor>")
  case True
  define k :: int where "k = - int n"
  define e where "e = \<lfloor>log 2 \<bar>x\<bar>\<rfloor>"
  have pk: "(2::real) powr of_int k = 1 / 2 ^ n"
    by (simp add: k_def powr_minus_divide powr_realpow)
  have "0 < (1::real) / 2 ^ n"
    by simp
  then have xpos: "0 < x"
    using assms(1) by linarith
  have "of_int k \<le> log 2 x"
    using xpos assms(1) by (simp add: le_log_iff pk)
  then have ke: "k \<le> e"
    using xpos by (simp add: e_def le_floor_iff)
  have "of_int e \<le> log 2 x"
    using xpos by (simp add: e_def)
  then have ex: "2 powr of_int e \<le> x"
    using xpos by (simp add: le_log_iff)
  have "max e (- 126) = e"
    using True by (simp add: e_def)
  then have u: "f32_ulp x = 2 powr of_int (e - 23)"
    by (simp only: f32_ulp_def e_def)
  have "(2::real) powr of_int e = 2 powr (23 + of_int (e - 23))"
    by simp
  also have "\<dots> = 2 powr 23 * 2 powr of_int (e - 23)"
    by (rule powr_add)
  finally have split: "(2::real) powr of_int e = 2 ^ 23 * 2 powr of_int (e - 23)"
    by simp
  have "of_int (2 ^ 23) \<le> x / f32_ulp x"
    using ex by (simp add: u split pos_le_divide_eq)
  then have "2 ^ 23 \<le> rne (x / f32_ulp x)" by (rule rne_ge_int)
  then have "(2 ^ 23 :: real) \<le> of_int (rne (x / f32_ulp x))"
    by (metis of_int_le_iff of_int_numeral of_int_power)
  then have "2 ^ 23 * f32_ulp x \<le> of_int (rne (x / f32_ulp x)) * f32_ulp x"
    using f32_ulp_pos[of x] by (intro mult_right_mono) simp_all
  then have "2 powr of_int e \<le> f32_round x"
    using xpos by (simp add: f32_round_def split u)
  moreover have "(2::real) powr of_int k \<le> 2 powr of_int e"
    using ke by (intro powr_mono) simp_all
  ultimately show ?thesis by (simp add: pk)
next
  case False
  have "0 < (1::real) / 2 ^ n"
    by simp
  then have xpos: "0 < x"
    using assms(1) by linarith
  have "max \<lfloor>log 2 \<bar>x\<bar>\<rfloor> (- 126) = - 126"
    using False by simp
  then have "f32_ulp x = 2 powr of_int (- 126 - 23)"
    by (simp only: f32_ulp_def)
  then have u: "f32_ulp x = 1 / 2 ^ 149"
    by (simp add: powr_minus_divide)
  define j where "j = 149 - n"
  have nj: "149 = n + j"
    using assms(2) by (simp add: j_def)
  have p: "(2::real) ^ 149 = 2 ^ n * 2 ^ j"
    by (simp only: nj power_add)
  have "(2::real) ^ j = (1 / 2 ^ n) * 2 ^ 149"
    unfolding p by simp
  also have "\<dots> \<le> x * 2 ^ 149"
    using assms(1) by (intro mult_right_mono) simp_all
  finally have "of_int (2 ^ j) \<le> x / f32_ulp x"
    by (simp add: u)
  then have "2 ^ j \<le> rne (x / f32_ulp x)" by (rule rne_ge_int)
  then have "(2 ^ j :: real) \<le> of_int (rne (x / f32_ulp x))"
    by (metis of_int_le_iff of_int_numeral of_int_power)
  define m where "m = rne (x / f32_ulp x)"
  have mj: "(2 ^ j :: real) \<le> of_int m"
    unfolding m_def by fact
  have "2 ^ j * (1 / 2 ^ 149) \<le> of_int m * (1 / 2 ^ 149 :: real)"
    using mj by (intro mult_right_mono) simp_all
  moreover have "(2::real) ^ j * (1 / 2 ^ 149) = 1 / 2 ^ n"
    unfolding p by simp
  ultimately have key: "1 / 2 ^ n \<le> of_int m * (1 / 2 ^ 149 :: real)"
    by (simp only:)
  have "x \<noteq> 0" using xpos by simp
  then have "f32_round x = of_int m * f32_ulp x"
    by (simp only: f32_round_def if_False m_def)
  then show ?thesis
    using key by (simp only: u)
qed

lemma f32_round_le_twice:
  assumes "\<bar>x\<bar> \<le> 1 / 2 ^ n" "n \<le> 125"
  shows "\<bar>f32_round x\<bar> \<le> 2 / 2 ^ n"
proof (cases "x = 0")
  case True
  then show ?thesis by (simp add: f32_round_def)
next
  case False
  define k :: int where "k = - int n"
  have pk: "(2::real) powr of_int k = 1 / 2 ^ n"
    by (simp add: k_def powr_minus_divide powr_realpow)
  have "(2::real) powr of_int (k + 1) = 2 * 2 powr of_int k"
    by (simp add: powr_add)
  moreover have "0 < (2::real) powr of_int k"
    by simp
  ultimately have "\<bar>x\<bar> < 2 powr of_int (k + 1)"
    using assms(1) pk by linarith
  then have "f32_ulp x \<le> 2 powr of_int (k - 23)"
    using False assms(2) by (intro f32_ulp_le) (simp_all add: k_def)
  also have "\<dots> \<le> 2 powr of_int k"
    by (intro powr_mono) simp_all
  finally have "f32_ulp x \<le> 1 / 2 ^ n" by (simp add: pk)
  then have "\<bar>f32_round x - x\<bar> \<le> 1 / 2 ^ n"
    using f32_round_error[of x] f32_ulp_pos[of x] by linarith
  then show ?thesis using assms(1) by (simp add: abs_le_iff)
qed

text \<open>A number \<open>m * 2^e\<close> with fewer than 24 significant bits above \<open>2^e\<close> is a binary32 number.\<close>
lemma f32_round_exact:
  assumes z: "z = of_int m * 2 powr of_int e" and e: "- 149 \<le> e"
    and b: "\<bar>z\<bar> < 2 powr of_int (e + 24)"
  shows "f32_round z = z"
proof (cases "z = 0")
  case True
  then show ?thesis by (simp add: f32_round_def)
next
  case False
  define L where "L = \<lfloor>log 2 \<bar>z\<bar>\<rfloor>"
  define ue where "ue = max L (- 126) - 23"
  have "log 2 \<bar>z\<bar> < of_int (e + 24)"
    using False b by (simp add: log_less_iff)
  then have "L < e + 24"
    by (simp add: L_def floor_less_iff)
  then have le: "ue \<le> e"
    using e by (simp add: ue_def)
  have u: "f32_ulp z = 2 powr of_int ue"
    by (simp add: f32_ulp_def ue_def L_def)
  define k where "k = nat (e - ue)"
  have ek: "e = ue + int k"
    using le by (simp add: k_def)
  have "(2::real) powr of_int e = 2 powr (of_int ue + of_nat k)"
    by (simp add: ek)
  also have "\<dots> = 2 powr of_int ue * 2 ^ k"
    by (simp add: powr_add powr_realpow)
  finally have pe: "(2::real) powr of_int e = 2 powr of_int ue * 2 ^ k" .
  have "z / 2 powr of_int ue = of_int m * 2 ^ k"
    by (simp add: z pe)
  also have "\<dots> = of_int (m * 2 ^ k)"
    by simp
  finally have "rne (z / f32_ulp z) = m * 2 ^ k"
    by (simp only: u rne_of_int)
  then have "f32_round z = of_int (m * 2 ^ k) * 2 powr of_int ue"
    using False by (simp only: f32_round_def u if_False)
  also have "\<dots> = z"
    by (simp add: z pe)
  finally show ?thesis .
qed




lemma f32_mul_zero: "f32_mul a 0 = 0"
  by (simp add: f32_mul_def f32_round_def)

subsection \<open>The loops of Np\<close>

lemma f32_round_le_PI:
  assumes PI3: "3 \<le> PIf" "PIf < 4" and rep: "PIf = of_int N / 2 ^ 22" and x: "x < PIf"
  shows "f32_round x \<le> PIf"
proof (cases "x < 2")
  case True
  show ?thesis
  proof (cases "- (2 ^ 24) < x")
    case True
    then have "\<bar>x\<bar> < 2 ^ 24" using \<open>x < 2\<close> by simp
    then have "\<bar>f32_round x - x\<bar> \<le> 1 / 2" by (rule f32_round_error_half)
    then show ?thesis using \<open>x < 2\<close> PI3 by linarith
  next
    case False
    then have neg: "x < 0" by simp
    have "rne (x / f32_ulp x) \<le> 0"
      using neg f32_ulp_pos[of x] by (intro rne_le_int) (simp add: divide_le_0_iff)
    then have "of_int (rne (x / f32_ulp x)) * f32_ulp x \<le> 0"
      using f32_ulp_pos[of x] by (simp add: mult_le_0_iff)
    then show ?thesis using neg PI3 by (simp add: f32_round_def)
  qed
next
  case False
  then have x2: "2 \<le> x" "x < 4" using x PI3 by simp_all
  have u: "f32_ulp x = 2 powr of_int (1 - 23)"
    using x2 by (intro f32_ulp_eq) simp_all
  have u': "f32_ulp x = 1 / 2 ^ 22"
    unfolding u by (simp add: powr_minus_divide)
  have "x / f32_ulp x \<le> of_int N"
    using x rep by (simp add: u' field_simps)
  then have "rne (x / f32_ulp x) \<le> N" by (rule rne_le_int)
  then have "of_int (rne (x / f32_ulp x)) * f32_ulp x \<le> of_int N * f32_ulp x"
    using f32_ulp_pos[of x] by (intro mult_right_mono) simp_all
  then show ?thesis using x2 rep by (simp add: f32_round_def u')
qed

lemma Np_sub_f32_returns:
  assumes PI3: "3 \<le> PIf" "PIf < 4" and d: "- (2 ^ 23) \<le> d" "d \<le> 2 ^ 23"
  shows "\<exists>y. Np_sub_f32 PIf (2 * PIf) d = Some y \<and> y \<le> PIf \<and> - (2 ^ 23) \<le> y"
  using d
proof (induction "nat \<lceil>d\<rceil>" arbitrary: d rule: less_induct)
  case less
  show ?case
  proof (cases "PIf < d")
    case True
    define d' where "d' = f32_round (d - 2 * PIf)"
    have "\<bar>d - 2 * PIf\<bar> < 2 ^ 24"
      using True PI3 less.prems by (simp add: abs_less_iff)
    then have err: "\<bar>d' - (d - 2 * PIf)\<bar> \<le> 1 / 2"
      unfolding d'_def by (rule f32_round_error_half)
    have b: "d' \<le> d - 5" "- (2 ^ 23) \<le> d'" "d' \<le> 2 ^ 23"
      using err True PI3 less.prems by (simp_all, linarith+)
    have "\<lceil>d'\<rceil> \<le> \<lceil>d - 5\<rceil>" using b(1) by (rule ceiling_mono)
    moreover have "0 < \<lceil>d\<rceil>" using True PI3 by (simp add: less_ceiling_iff)
    ultimately have "nat \<lceil>d'\<rceil> < nat \<lceil>d\<rceil>" by simp
    from less.hyps[OF this b(2,3)] obtain y where
      "Np_sub_f32 PIf (2 * PIf) d' = Some y" "y \<le> PIf" "- (2 ^ 23) \<le> y" by blast
    moreover have "Np_sub_f32 PIf (2 * PIf) d = Np_sub_f32 PIf (2 * PIf) d'"
      using True by (subst Np_sub_f32.simps) (simp add: d'_def)
    ultimately show ?thesis by simp
  next
    case False
    then have "Np_sub_f32 PIf (2 * PIf) d = Some d"
      by (subst Np_sub_f32.simps) simp
    then show ?thesis using False less.prems by simp
  qed
qed

lemma Np_add_f32_returns:
  assumes PI3: "3 \<le> PIf" "PIf < 4" and rep: "PIf = of_int N / 2 ^ 22"
    and e: "- (2 ^ 23) \<le> e" "e \<le> PIf"
  shows "\<exists>z. Np_add_f32 PIf (2 * PIf) e = Some z \<and> - PIf \<le> z \<and> z \<le> PIf"
  using e
proof (induction "nat \<lceil>- e\<rceil>" arbitrary: e rule: less_induct)
  case less
  show ?case
  proof (cases "e < - PIf")
    case True
    define e' where "e' = f32_round (e + 2 * PIf)"
    have "\<bar>e + 2 * PIf\<bar> < 2 ^ 24"
      using True PI3 less.prems by (simp add: abs_less_iff)
    then have err: "\<bar>e' - (e + 2 * PIf)\<bar> \<le> 1 / 2"
      unfolding e'_def by (rule f32_round_error_half)
    have "e + 2 * PIf < PIf" using True by simp
    then have up: "e' \<le> PIf"
      unfolding e'_def by (rule f32_round_le_PI[OF PI3 rep])
    have b: "- e' \<le> - e - 5" "- (2 ^ 23) \<le> e'"
      using err True PI3 less.prems by (simp_all, linarith+)
    have "\<lceil>- e'\<rceil> \<le> \<lceil>- e - 5\<rceil>" using b(1) by (rule ceiling_mono)
    moreover have "0 < \<lceil>- e\<rceil>" using True PI3 by (simp add: less_ceiling_iff)
    ultimately have "nat \<lceil>- e'\<rceil> < nat \<lceil>- e\<rceil>" by simp
    from less.hyps[OF this b(2) up] obtain z where
      "Np_add_f32 PIf (2 * PIf) e' = Some z" "- PIf \<le> z" "z \<le> PIf" by blast
    moreover have "Np_add_f32 PIf (2 * PIf) e = Np_add_f32 PIf (2 * PIf) e'"
      using True by (subst Np_add_f32.simps) (simp add: e'_def)
    ultimately show ?thesis by simp
  next
    case False
    then have "Np_add_f32 PIf (2 * PIf) e = Some e"
      by (subst Np_add_f32.simps) simp
    then show ?thesis using False less.prems by simp
  qed
qed

lemma Np_sub_f32_stuck:
  assumes stuck: "f32_round (d - T) = d" and gt: "P < d"
  shows "Np_sub_f32 P T d = None"
proof (rule ccontr)
  assume "Np_sub_f32 P T d \<noteq> None"
  then obtain y where some: "Np_sub_f32 P T d = Some y"
    by blast
  have "(P, T, d) \<noteq> (P, T, d)"
  proof (rule Np_sub_f32.raw_induct [where P = "\<lambda>a b c y. (a, b, c) \<noteq> (P, T, d)", OF _ some])
    fix f :: "real \<Rightarrow> real \<Rightarrow> real \<Rightarrow> real option" and a b c y
    assume IH: "\<And>a b c y. f a b c = Some y \<Longrightarrow> (a, b, c) \<noteq> (P, T, d)"
      and step: "(if a < c then f a b (f32_round (c - b)) else Some c) = Some y"
    show "(a, b, c) \<noteq> (P, T, d)"
    proof
      assume "(a, b, c) = (P, T, d)"
      with step gt stuck have "f P T d = Some y" by simp
      from IH[OF this] show False by simp
    qed
  qed
  then show False by simp
qed

lemma f32_round_absorbed:
  assumes "0 < c" "c < 8"
  shows "f32_round (2 ^ 100 - c) = 2 ^ 100"
proof -
  define x :: real where "x = 2 ^ 100 - c"
  have x: "2 powr of_int 99 \<le> \<bar>x\<bar>" "\<bar>x\<bar> < 2 powr of_int (99 + 1)" "x \<noteq> 0"
    using assms by (simp_all add: x_def)
  have "f32_ulp x = 2 powr of_int (99 - 23)"
    using x(1,2) by (rule f32_ulp_eq) simp
  then have u: "f32_ulp x = 2 ^ 76"
    by simp
  define y where "y = x / 2 ^ 76"
  have y: "y = 2 ^ 24 - c / 2 ^ 76"
    by (simp add: y_def x_def field_simps)
  have small: "0 < c / 2 ^ 76" "c / 2 ^ 76 < 1 / 2"
    using assms by simp_all
  have "rne y = (2 ^ 24 - 1) + 1"
    using small by (intro rne_up) (simp_all add: y)
  then have "of_int (rne y) * (2 ^ 76 :: real) = 2 ^ 100"
    by simp
  then have "f32_round x = 2 ^ 100"
    using x(3) by (simp only: f32_round_def u y_def if_False)
  then show ?thesis
    by (simp only: x_def)
qed

text \<open>
  Claim C10, as stated: the loops end for every finite input angle.  With the binary32
  constants nearest to \<open>\<pi>\<close> and \<open>2\<pi>\<close> and the finite binary32 difference \<open>2\<^sup>1\<^sup>0\<^sup>0\<close>, the
  subtraction \<^verbatim>\<open>dphi -= TWO_PI\<close> rounds back to \<open>2\<^sup>1\<^sup>0\<^sup>0\<close>, and the first loop never ends.
\<close>
theorem Np_loops_f32_counterexample:
  "Np_reduce_f32 (13176795 / 4194304) (13176795 / 2097152) (2 ^ 100) = None"
proof -
  have "f32_round (2 ^ 100 - 13176795 / 2097152) = 2 ^ 100"
    by (rule f32_round_absorbed) simp_all
  then have "Np_sub_f32 (13176795 / 4194304) (13176795 / 2097152) (2 ^ 100) = None"
    by (rule Np_sub_f32_stuck) simp
  then show ?thesis
    by (simp add: Np_reduce_f32_def)
qed

text \<open>
  Claim C10, amended: when \<^verbatim>\<open>PI\<close> is a binary32 number in \<open>[3, 4)\<close>, \<^verbatim>\<open>TWO_PI\<close> is twice
  \<^verbatim>\<open>PI\<close>, and the difference \<open>phi - Phi(p)\<close> that enters the loops is at most \<open>2\<^sup>2\<^sup>3\<close> in
  absolute value, the two loops of \<^verbatim>\<open>Np\<close> end after finitely many iterations and leave
  the reduced difference in \<open>[-PI, PI]\<close>.
\<close>
theorem Np_loops_f32_return:
  assumes "3 \<le> PIf" "PIf < 4" "PIf = of_int N / 2 ^ 22" "TWO_PIf = 2 * PIf" "\<bar>dphi\<bar> \<le> 2 ^ 23"
  shows "\<exists>y. Np_reduce_f32 PIf TWO_PIf dphi = Some y \<and> - PIf \<le> y \<and> y \<le> PIf"
proof -
  have d: "- (2 ^ 23) \<le> dphi" "dphi \<le> 2 ^ 23"
    using assms(5) by (simp_all add: abs_le_iff)
  obtain e where e: "Np_sub_f32 PIf (2 * PIf) dphi = Some e" "e \<le> PIf" "- (2 ^ 23) \<le> e"
    using Np_sub_f32_returns[OF assms(1,2) d] by blast
  obtain z where z: "Np_add_f32 PIf (2 * PIf) e = Some z" "- PIf \<le> z" "z \<le> PIf"
    using Np_add_f32_returns[OF assms(1,2,3) e(3,2)] by blast
  show ?thesis
    using e(1) z by (simp add: Np_reduce_f32_def assms(4))
qed

theorem Np_loops_f32_return_witness:
  "\<exists>y. Np_reduce_f32 (13176795 / 4194304) (13176795 / 2097152) 10 = Some y
        \<and> - (13176795 / 4194304) \<le> y \<and> y \<le> 13176795 / 4194304"
proof -
  have h: "(3::real) \<le> 13176795 / 4194304" "(13176795 / 4194304 :: real) < 4"
    "(13176795 / 4194304 :: real) = of_int 13176795 / 2 ^ 22"
    "(13176795 / 2097152 :: real) = 2 * (13176795 / 4194304)"
    "\<bar>10 :: real\<bar> \<le> 2 ^ 23"
    by simp_all
  show ?thesis
    by (rule Np_loops_f32_return [OF h])
qed

subsection \<open>Np\<close>















subsection \<open>The lobe selection of Hair::sample\_f\<close>

lemma Hair_v_loop_3: "Hair_v_loop 3 v = v[3 := v ! 2]"
  by (subst Hair_v_loop.simps, subst Hair_v_loop.simps) (simp add: PMAX_def)

lemma m_v_Hair_raw:
  "m_v (Hair this absorption lRoughness aRoughness ior) =
     (let v = (m_v this)[0 := SQR (0.726 * lRoughness + 0.812 * SQR lRoughness
                                    + 3.7 * PowN 20 lRoughness)];
          v = v[1 := 0.25 * v ! 0];
          v = v[2 := 4 * v ! 0]
      in Hair_v_loop 3 v)"
  unfolding Hair_def Let_def by (simp only: case_prod_beta hair.simps)

lemma length_m_v_Hair:
  "length (m_v (Hair this absorption lRoughness aRoughness ior)) = length (m_v this)"
  by (simp only: m_v_Hair_raw Let_def Hair_v_loop_3 length_list_update)

lemma sample_f_lobe_le: "p \<le> PMAX \<Longrightarrow> sample_f_lobe apPdf r p \<le> PMAX"
  by (induction apPdf r p rule: sample_f_lobe.induct) (subst sample_f_lobe.simps, simp)

lemma sample_f_lobe_last:
  "p \<le> PMAX \<Longrightarrow> \<forall>i. p \<le> i \<and> i < PMAX \<longrightarrow> 0 \<le> apPdf ! i \<Longrightarrow> r \<le> 1 + of_nat p / 2 ^ 24
    \<Longrightarrow> (\<Sum>i = p..<PMAX. apPdf ! i) + of_nat (PMAX - Suc p) / 2 ^ 24 \<le> r
    \<Longrightarrow> sample_f_lobe apPdf r p = PMAX"
proof (induction apPdf r p rule: sample_f_lobe.induct)
  case (1 apPdf r p)
  show ?case
  proof (cases "p < PMAX")
    case True
    define r' where "r' = f32_sub r (apPdf ! p)"
    define S' where "S' = (\<Sum>i = p + 1..<PMAX. apPdf ! i)"
    define M :: real where "M = of_nat (PMAX - Suc p) / 2 ^ 24"
    define M' :: real where "M' = of_nat (PMAX - Suc (p + 1)) / 2 ^ 24"
    have split: "(\<Sum>i = p..<PMAX. apPdf ! i) = apPdf ! p + S'"
      using True by (simp add: sum.atLeast_Suc_lessThan S'_def)
    have nn: "0 \<le> S'"
      unfolding S'_def using 1(3) by (intro sum_nonneg) simp
    have m0: "0 \<le> M"
      by (simp add: M_def)
    have h5: "apPdf ! p + S' + M \<le> r"
      using 1(5) by (simp only: split M_def)
    have ge: "apPdf ! p \<le> r" using h5 nn m0 by linarith
    have ap0: "0 \<le> apPdf ! p" using 1(3) True by simp
    have p3: "(of_nat p :: real) / 2 ^ 24 < 1" using True by (simp add: PMAX_def)
    have "\<bar>r - apPdf ! p\<bar> < 2"
      using ge ap0 1(4) p3 by linarith
    then have err: "\<bar>r' - (r - apPdf ! p)\<bar> \<le> 1 / 2 ^ 24"
      unfolding r'_def f32_sub_def by (rule f32_round_error_small)
    have r'0: "0 \<le> r'"
      unfolding r'_def f32_sub_def using ge by (intro f32_round_nonneg) simp
    have up: "r' \<le> 1 + of_nat (p + 1) / 2 ^ 24"
    proof -
      have "r' \<le> r - apPdf ! p + 1 / 2 ^ 24"
        using err by linarith
      then have "r' \<le> 1 + of_nat p / 2 ^ 24 + 1 / 2 ^ 24"
        using ap0 1(4) by linarith
      then show ?thesis
        by (simp add: add_divide_distrib)
    qed
    have low: "S' + M' \<le> r'"
    proof (cases "p + 1 < PMAX")
      case True
      then have eq: "(of_nat (PMAX - Suc p) :: real) = of_nat (PMAX - Suc (p + 1)) + 1"
        by (simp add: of_nat_diff)
      have MM: "M = M' + 1 / 2 ^ 24"
        unfolding M_def M'_def eq by (rule add_divide_distrib)
      have "r - apPdf ! p - 1 / 2 ^ 24 \<le> r'"
        using err by linarith
      then show ?thesis
        using h5 MM by linarith
    next
      case False
      then have "S' = 0" "M' = 0"
        by (simp_all add: S'_def M'_def)
      then show ?thesis using r'0 by simp
    qed
    have "sample_f_lobe apPdf (f32_sub r (apPdf ! p)) (p + 1) = PMAX"
    proof (rule 1(1))
      show "p < PMAX" by fact
      show "\<not> r < apPdf ! p" using ge by simp
      show "p + 1 \<le> PMAX" using True by simp
      show "\<forall>i. p + 1 \<le> i \<and> i < PMAX \<longrightarrow> 0 \<le> apPdf ! i" using 1(3) by simp
      show "f32_sub r (apPdf ! p) \<le> 1 + of_nat (p + 1) / 2 ^ 24"
        using up by (simp only: r'_def)
      show "(\<Sum>i = p + 1..<PMAX. apPdf ! i) + of_nat (PMAX - Suc (p + 1)) / 2 ^ 24
              \<le> f32_sub r (apPdf ! p)"
        using low by (simp only: r'_def S'_def M'_def)
    qed
    then show ?thesis using True ge by (subst sample_f_lobe.simps) simp
  next
    case False
    then show ?thesis using 1(2) by (subst sample_f_lobe.simps) simp
  qed
qed

lemma f32_round_example_1: "f32_round (51423125 / 2 ^ 26) = 12855781 / 2 ^ 24"
proof -
  define x :: real where "x = 51423125 / 2 ^ 26"
  have "f32_ulp x = 2 powr of_int (- 1 - 23)"
    by (rule f32_ulp_eq) (simp_all add: x_def powr_minus_divide)
  then have u: "f32_ulp x = 1 / 2 ^ 24"
    by (simp add: powr_minus_divide)
  have q: "x / (1 / 2 ^ 24) = 51423125 / 4"
    by (simp add: x_def)
  have "rne (51423125 / 4) = 12855781"
    by (rule rne_down) simp_all
  then have "rne (x / f32_ulp x) = 12855781"
    by (simp only: u q)
  moreover have "x \<noteq> 0"
    by (simp add: x_def)
  ultimately have "f32_round x = of_int 12855781 * (1 / 2 ^ 24)"
    by (simp only: f32_round_def u if_False)
  then show ?thesis
    unfolding x_def by simp
qed

lemma f32_round_example_2: "f32_round (115204 / 2 ^ 24) = 115204 / 2 ^ 24"
  by (rule f32_round_exact[where m = 115204 and e = "- 24"]) (simp_all add: powr_minus_divide)

text \<open>
  Claim C8, as stated: the last lobe \<open>PMAX\<close> is selected whenever the draw exceeds the
  cumulative mass of lobes \<open>0..PMAX-1\<close>.  For the binary32 probabilities
  \<open>0x1.de8ffep-3\<close>, \<open>0x1.84cfc2p-1\<close>, \<open>0x1.c2043cp-8\<close>, \<open>0x1.06cdf0p-14\<close> (they sum to 1
  within rounding) and the binary32 draw \<open>0x1.fff7cap-1\<close>, the draw exceeds the sum of
  the first three probabilities, but the first float subtraction rounds down and the
  scan stops at lobe \<open>PMAX - 1\<close>.
\<close>
theorem sample_f_lobe_counterexample:
  "(15681535 / 2 ^ 26 + 12740577 / 2 ^ 24 + 7373071 / 2 ^ 30 :: real) < 16776165 / 2 ^ 24
   \<and> sample_f_lobe [15681535 / 2 ^ 26, 12740577 / 2 ^ 24, 7373071 / 2 ^ 30, 1076447 / 2 ^ 34]
        (16776165 / 2 ^ 24) 0 = PMAX - 1"
proof -
  define A :: "real list"
    where "A = [15681535 / 2 ^ 26, 12740577 / 2 ^ 24, 7373071 / 2 ^ 30, 1076447 / 2 ^ 34]"
  have A: "A ! 0 = 15681535 / 2 ^ 26" "A ! (0 + 1) = 12740577 / 2 ^ 24"
    "A ! (0 + 1 + 1) = 7373071 / 2 ^ 30"
    by (simp_all add: A_def)
  have a: "(16776165 / 2 ^ 24 - 15681535 / 2 ^ 26 :: real) = 51423125 / 2 ^ 26"
    "(12855781 / 2 ^ 24 - 12740577 / 2 ^ 24 :: real) = 115204 / 2 ^ 24"
    by simp_all
  have s1: "f32_sub (16776165 / 2 ^ 24) (A ! 0) = 12855781 / 2 ^ 24"
    by (simp only: A f32_sub_def a f32_round_example_1)
  have s2: "f32_sub (12855781 / 2 ^ 24) (A ! (0 + 1)) = 115204 / 2 ^ 24"
    by (simp only: A f32_sub_def a f32_round_example_2)
  have c: "\<not> (16776165 / 2 ^ 24 :: real) < A ! 0" "\<not> (12855781 / 2 ^ 24 :: real) < A ! (0 + 1)"
    "(115204 / 2 ^ 24 :: real) < A ! (0 + 1 + 1)"
    unfolding A by simp_all
  have p: "(0::nat) < PMAX" "(0::nat) + 1 < PMAX" "(0::nat) + 1 + 1 < PMAX"
    by (simp_all add: PMAX_def)
  have q: "(0::nat) + 1 + 1 = PMAX - 1"
    by (simp add: PMAX_def)
  have "sample_f_lobe A (115204 / 2 ^ 24) (0 + 1 + 1) = 0 + 1 + 1"
    by (subst sample_f_lobe.simps) (simp only: p c if_True)
  then have "sample_f_lobe A (12855781 / 2 ^ 24) (0 + 1) = 0 + 1 + 1"
    by (subst sample_f_lobe.simps) (simp only: p c s2 if_True if_False)
  then have "sample_f_lobe A (16776165 / 2 ^ 24) 0 = 0 + 1 + 1"
    by (subst sample_f_lobe.simps) (simp only: p c s1 if_True if_False)
  then have "sample_f_lobe A (16776165 / 2 ^ 24) 0 = PMAX - 1"
    by (simp only: q)
  moreover have "(15681535 / 2 ^ 26 + 12740577 / 2 ^ 24 + 7373071 / 2 ^ 30 :: real) < 16776165 / 2 ^ 24"
    by simp
  ultimately show ?thesis
    unfolding A_def by (rule conjI[rotated])
qed

text \<open>
  Claim C8, amended: for every draw \<open>r\<close> and every array of lobe probabilities, the linear
  scan of \<^verbatim>\<open>Hair::sample_f\<close> ends with a lobe index \<open>p\<close> in \<open>{0, ..., PMAX}\<close>, which is a
  valid index of the variance array \<^verbatim>\<open>m_v\<close> built by the constructor; and when the
  probabilities of lobes \<open>0..PMAX-1\<close> are non-negative and the draw is at most 1 and
  exceeds their sum by at least \<open>2\<^sup>-\<^sup>2\<^sup>3\<close> (the rounding of the two float subtractions
  that precede the last comparison), the scan selects the last lobe \<open>PMAX\<close>.
\<close>
theorem sample_f_lobe_in_bounds:
  assumes "length (m_v this) = PMAX + 1"
  shows "sample_f_lobe apPdf r 0 \<le> PMAX
       \<and> sample_f_lobe apPdf r 0 < length (m_v (Hair this absorption lRoughness aRoughness ior))
       \<and> ((\<forall>i<PMAX. 0 \<le> apPdf ! i) \<and> r \<le> 1 \<and> (\<Sum>i<PMAX. apPdf ! i) + 1 / 2 ^ 23 \<le> r
            \<longrightarrow> sample_f_lobe apPdf r 0 = PMAX)"
proof -
  have le: "sample_f_lobe apPdf r 0 \<le> PMAX"
    by (rule sample_f_lobe_le) simp
  have m: "(of_nat (PMAX - Suc 0) :: real) / 2 ^ 24 = 1 / 2 ^ 23"
    by (simp add: PMAX_def)
  have last: "sample_f_lobe apPdf r 0 = PMAX"
    if "\<forall>i<PMAX. 0 \<le> apPdf ! i" "r \<le> 1" "(\<Sum>i<PMAX. apPdf ! i) + 1 / 2 ^ 23 \<le> r"
    using that by (intro sample_f_lobe_last) (simp_all only: m atLeast0LessThan, simp_all)
  show ?thesis
    using le last assms by (simp only: length_m_v_Hair) simp
qed

theorem sample_f_lobe_in_bounds_witness:
  "sample_f_lobe [1 / 2, 1 / 4, 1 / 8, 1 / 8] (15 / 16) 0 = PMAX
   \<and> sample_f_lobe [1 / 2, 1 / 4, 1 / 8, 1 / 8] (15 / 16) 0
       < length (m_v (Hair \<lparr>m_sigma = spectrum_of 0, m_lRoughness = 0, m_aRoughness = 0,
                              m_eta = 0, m_v = [0, 0, 0, 0], m_sin2kAlpha = [0, 0, 0],
                              m_cos2kAlpha = [0, 0, 0], m_scale = 0, m_etaSqr = 0\<rparr>
                           (spectrum_of 0) (3 / 10) (3 / 10) (31 / 20)))"
proof -
  let ?h = "\<lparr>m_sigma = spectrum_of 0, m_lRoughness = 0, m_aRoughness = 0,
                 m_eta = 0, m_v = [0, 0, 0, 0], m_sin2kAlpha = [0, 0, 0],
                 m_cos2kAlpha = [0, 0, 0], m_scale = 0, m_etaSqr = 0\<rparr>"
  let ?apPdf = "[1 / 2, 1 / 4, 1 / 8, 1 / 8 :: real]"
  have len: "length (m_v ?h) = PMAX + 1"
    by (simp add: PMAX_def)
  have nonneg: "\<forall>i<PMAX. 0 \<le> ?apPdf ! i"
    by (simp add: PMAX_def less_Suc_eq eval_nat_numeral)
  have sum: "(15 / 16 :: real) \<le> 1" "(\<Sum>i<PMAX. ?apPdf ! i) + 1 / 2 ^ 23 \<le> 15 / 16"
    by (simp_all add: PMAX_def lessThan_nat_numeral lessThan_Suc)
  show ?thesis
    using sample_f_lobe_in_bounds [OF len, of ?apPdf "15 / 16" "spectrum_of 0" "3 / 10" "3 / 10" "31 / 20"]
      nonneg sum by blast
qed

subsection \<open>The constructor Hair::Hair\<close>

lemma Hair_alpha_loop_1:
  "Hair_alpha_loop 1 (s, c) =
     (let s1 = s[1 := 2 * c ! 0 * s ! 0]; c1 = c[1 := SQR (c ! 0) - SQR (s ! 0)]
      in (s1[2 := 2 * c1 ! 1 * s1 ! 1], c1[2 := SQR (c1 ! 1) - SQR (s1 ! 1)]))"
  by (subst Hair_alpha_loop.simps, subst Hair_alpha_loop.simps, subst Hair_alpha_loop.simps)
     (simp add: PMAX_def Let_def numeral_2_eq_2)

lemma Hair_v_f32_list:
  assumes "length v = PMAX + 1"
  shows "Hair_v_f32 Pow20f v r =
     (let s = f32_add (f32_add (f32_mul (f32_round 0.726) r)
                               (f32_mul (f32_round 0.812) (f32_mul r r)))
                      (f32_mul (f32_round 3.7) (Pow20f r));
          v0 = f32_mul s s
      in [v0, f32_round (0.25 * v0), f32_mul 4 v0, f32_mul 4 v0])"
proof -
  obtain a b c d where "v = [a, b, c, d]"
    using assms by (auto simp: PMAX_def length_Suc_conv eval_nat_numeral)
  then show ?thesis
    unfolding Hair_v_f32_def Let_def Hair_v_loop_3 by simp
qed

lemma m_v_Hair_list:
  assumes "length (m_v this) = PMAX + 1"
  shows "m_v (Hair this absorption lRoughness aRoughness ior) =
     (let v0 = SQR (0.726 * lRoughness + 0.812 * SQR lRoughness + 3.7 * PowN 20 lRoughness)
      in [v0, 0.25 * v0, 4 * v0, 4 * v0])"
proof -
  obtain a b c d where "m_v this = [a, b, c, d]"
    using assms by (auto simp: PMAX_def length_Suc_conv eval_nat_numeral)
  then show ?thesis
    unfolding m_v_Hair_raw Let_def Hair_v_loop_3 by simp
qed

lemma Hair_v0_pos:
  assumes "0 < (x::real)"
  shows "0 < SQR (0.726 * x + 0.812 * SQR x + 3.7 * PowN 20 x)"
proof -
  have "0 < 0.726 * x" "0 \<le> 0.812 * SQR x" "0 \<le> 3.7 * PowN 20 x"
    using assms by (simp_all add: SQR_def PowN_def)
  then have "0 < 0.726 * x + 0.812 * SQR x + 3.7 * PowN 20 x" by linarith
  then show ?thesis by (simp add: SQR_def)
qed

lemma Hair_s_f32_ge:
  assumes r: "1 / 2 ^ 72 \<le> r" and p: "0 \<le> P20"
  shows "1 / 2 ^ 73 \<le> f32_add (f32_add (f32_mul (f32_round 0.726) r)
                               (f32_mul (f32_round 0.812) (f32_mul r r)))
                      (f32_mul (f32_round 3.7) P20)"
proof -
  have "0 \<le> (1::real) / 2 ^ 72"
    by simp
  then have rpos: "0 \<le> r"
    using r by linarith
  have c1: "1 / 2 ^ 1 \<le> f32_round 0.726"
    by (rule f32_round_ge_pow2) simp_all
  have "(1 / 2 ^ 1) * (1 / 2 ^ 72) \<le> f32_round 0.726 * r"
    using c1 r by (intro mult_mono) simp_all
  then have "1 / 2 ^ 73 \<le> f32_round 0.726 * r"
    by simp
  then have t1: "1 / 2 ^ 73 \<le> f32_mul (f32_round 0.726) r"
    unfolding f32_mul_def by (rule f32_round_ge_pow2) simp
  have "0 \<le> f32_mul r r"
    unfolding f32_mul_def using rpos by (intro f32_round_nonneg) simp
  then have t2: "0 \<le> f32_mul (f32_round 0.812) (f32_mul r r)"
    unfolding f32_mul_def[of "f32_round 0.812"]
    by (intro f32_round_nonneg mult_nonneg_nonneg) simp_all
  have t3: "0 \<le> f32_mul (f32_round 3.7) P20"
    unfolding f32_mul_def using p by (intro f32_round_nonneg mult_nonneg_nonneg) simp_all
  have s1: "1 / 2 ^ 73 \<le> f32_add (f32_mul (f32_round 0.726) r)
                               (f32_mul (f32_round 0.812) (f32_mul r r))"
    unfolding f32_add_def using t1 t2 by (intro f32_round_ge_pow2) simp_all
  show ?thesis
    unfolding f32_add_def[of "f32_add _ _"] using s1 t3 by (intro f32_round_ge_pow2) simp_all
qed

lemma Hair_v_f32_pos:
  assumes len: "length v = PMAX + 1" and r: "1 / 2 ^ 72 \<le> r" and p: "0 \<le> Pow20f r"
    and i: "i \<le> PMAX"
  shows "0 < Hair_v_f32 Pow20f v r ! i"
proof -
  define s where "s = f32_add (f32_add (f32_mul (f32_round 0.726) r)
                               (f32_mul (f32_round 0.812) (f32_mul r r)))
                      (f32_mul (f32_round 3.7) (Pow20f r))"
  define v0 where "v0 = f32_mul s s"
  have s: "1 / 2 ^ 73 \<le> s"
    unfolding s_def by (rule Hair_s_f32_ge[OF r p])
  have "(1 / 2 ^ 73) * (1 / 2 ^ 73) \<le> s * s"
    using s by (intro mult_mono) simp_all
  then have "1 / 2 ^ 146 \<le> s * s" by simp
  then have v0: "1 / 2 ^ 146 \<le> v0"
    unfolding v0_def f32_mul_def by (rule f32_round_ge_pow2) simp
  have "1 / 2 ^ 148 \<le> 0.25 * v0" using v0 by simp
  then have v1: "1 / 2 ^ 148 \<le> f32_round (0.25 * v0)"
    by (rule f32_round_ge_pow2) simp
  have "1 / 2 ^ 144 \<le> 4 * v0" using v0 by simp
  then have v2: "1 / 2 ^ 144 \<le> f32_mul 4 v0"
    unfolding f32_mul_def by (rule f32_round_ge_pow2) simp
  have eq: "Hair_v_f32 Pow20f v r = [v0, f32_round (0.25 * v0), f32_mul 4 v0, f32_mul 4 v0]"
    by (simp only: Hair_v_f32_list[OF len] Let_def s_def v0_def)
  have "0 < (1::real) / 2 ^ 146" "0 < (1::real) / 2 ^ 148" "0 < (1::real) / 2 ^ 144"
    by simp_all
  then have pos: "0 < v0" "0 < f32_round (0.25 * v0)" "0 < f32_mul 4 v0"
    using v0 v1 v2 by linarith+
  have "i = 0 \<or> i = 1 \<or> i = 2 \<or> i = 3"
    using i by (auto simp: PMAX_def)
  then show ?thesis
    using pos by (auto simp: eq)
qed

lemma alpha_Hair_raw:
  "(m_sin2kAlpha (Hair this absorption lRoughness aRoughness ior),
    m_cos2kAlpha (Hair this absorption lRoughness aRoughness ior)) =
     (let s = (m_sin2kAlpha this)[0 := sin (2 / 180)];
          c = (m_cos2kAlpha this)[0 := ssqrt (1 - SQR (s ! 0))]
      in Hair_alpha_loop 1 (s, c))"
  unfolding Hair_def Let_def by (simp only: case_prod_beta hair.simps prod.collapse)

lemma alpha_Hair_list:
  assumes "length (m_sin2kAlpha this) = PMAX" "length (m_cos2kAlpha this) = PMAX"
  shows "\<exists>s0 c0. s0\<^sup>2 + c0\<^sup>2 = 1 \<and>
      m_sin2kAlpha (Hair this absorption lRoughness aRoughness ior)
        = [s0, 2 * c0 * s0, 2 * (c0 * c0 - s0 * s0) * (2 * c0 * s0)] \<and>
      m_cos2kAlpha (Hair this absorption lRoughness aRoughness ior)
        = [c0, c0 * c0 - s0 * s0,
           (c0 * c0 - s0 * s0) * (c0 * c0 - s0 * s0) - 2 * c0 * s0 * (2 * c0 * s0)]"
proof -
  obtain a b c where s: "m_sin2kAlpha this = [a, b, c]"
    using assms by (auto simp: PMAX_def length_Suc_conv eval_nat_numeral)
  obtain a' b' c' where c: "m_cos2kAlpha this = [a', b', c']"
    using assms by (auto simp: PMAX_def length_Suc_conv eval_nat_numeral)
  define s0 :: real where "s0 = sin (2 / 180)"
  define c0 where "c0 = ssqrt (1 - SQR s0)"
  have "s0\<^sup>2 \<le> 1"
    unfolding s0_def by (simp add: abs_square_le_1)
  then have unit: "s0\<^sup>2 + c0\<^sup>2 = 1"
    by (auto simp: c0_def ssqrt_def SQR_def power2_eq_square[symmetric])
  have "(m_sin2kAlpha (Hair this absorption lRoughness aRoughness ior),
         m_cos2kAlpha (Hair this absorption lRoughness aRoughness ior)) =
        ([s0, 2 * c0 * s0, 2 * (c0 * c0 - s0 * s0) * (2 * c0 * s0)],
         [c0, c0 * c0 - s0 * s0,
           (c0 * c0 - s0 * s0) * (c0 * c0 - s0 * s0) - 2 * c0 * s0 * (2 * c0 * s0)])"
    unfolding alpha_Hair_raw s c Let_def Hair_alpha_loop_1 SQR_def
    by (simp add: s0_def c0_def SQR_def)
  with unit show ?thesis by blast
qed

lemma tilt_unit:
  fixes s0 c0 :: real
  assumes "s0\<^sup>2 + c0\<^sup>2 = 1"
  shows "(2 * c0 * s0)\<^sup>2 + (c0 * c0 - s0 * s0)\<^sup>2 = 1"
proof -
  have "(2 * c0 * s0)\<^sup>2 + (c0 * c0 - s0 * s0)\<^sup>2 = (s0\<^sup>2 + c0\<^sup>2)\<^sup>2"
    by (simp add: power2_eq_square algebra_simps)
  then show ?thesis by (simp add: assms)
qed

lemma Hair_tilt:
  assumes "length (m_sin2kAlpha this) = PMAX" "length (m_cos2kAlpha this) = PMAX" "i < PMAX"
  shows "(m_sin2kAlpha (Hair this absorption lRoughness aRoughness ior) ! i)\<^sup>2
       + (m_cos2kAlpha (Hair this absorption lRoughness aRoughness ior) ! i)\<^sup>2 = 1"
proof -
  obtain s0 c0 :: real where u0: "s0\<^sup>2 + c0\<^sup>2 = 1"
    and s: "m_sin2kAlpha (Hair this absorption lRoughness aRoughness ior)
        = [s0, 2 * c0 * s0, 2 * (c0 * c0 - s0 * s0) * (2 * c0 * s0)]"
    and c: "m_cos2kAlpha (Hair this absorption lRoughness aRoughness ior)
        = [c0, c0 * c0 - s0 * s0,
           (c0 * c0 - s0 * s0) * (c0 * c0 - s0 * s0) - 2 * c0 * s0 * (2 * c0 * s0)]"
    using alpha_Hair_list[OF assms(1,2)] by blast
  define s1 c1 where "s1 = 2 * c0 * s0" and "c1 = c0 * c0 - s0 * s0"
  have u1: "s1\<^sup>2 + c1\<^sup>2 = 1"
    unfolding s1_def c1_def by (rule tilt_unit[OF u0])
  have u2: "(2 * c1 * s1)\<^sup>2 + (c1 * c1 - s1 * s1)\<^sup>2 = 1"
    by (rule tilt_unit[OF u1])
  have "i = 0 \<or> i = 1 \<or> i = 2"
    using assms(3) by (auto simp: PMAX_def)
  then show ?thesis
    using u0 u1 u2 unfolding s c s1_def c1_def by auto
qed

lemma m_v_Hair_pos:
  assumes "length (m_v this) = PMAX + 1" "0 < lRoughness" "p \<le> PMAX"
  shows "0 < m_v (Hair this absorption lRoughness aRoughness ior) ! p"
proof -
  define v0 where "v0 = SQR (0.726 * lRoughness + 0.812 * SQR lRoughness + 3.7 * PowN 20 lRoughness)"
  have pos: "0 < v0"
    unfolding v0_def by (rule Hair_v0_pos[OF assms(2)])
  have eq: "m_v (Hair this absorption lRoughness aRoughness ior) = [v0, 0.25 * v0, 4 * v0, 4 * v0]"
    by (simp only: m_v_Hair_list[OF assms(1)] Let_def v0_def)
  have "p = 0 \<or> p = 1 \<or> p = 2 \<or> p = 3"
    using assms(3) by (auto simp: PMAX_def)
  then show ?thesis
    using pos by (auto simp: eq)
qed

lemma sin_alpha_bounds: "0 < sin (2 / 180 :: real)" "sin (2 / 180 :: real) < 1"
proof -
  show "0 < sin (2 / 180 :: real)"
    by (rule sin_gt_zero_02) simp_all
  have "sin (2 / 180 :: real) \<le> 2 / 180"
    by (rule sin_x_le_x) simp
  then show "sin (2 / 180 :: real) < 1"
    by simp
qed

lemma alpha_Hair_explicit:
  assumes "length (m_sin2kAlpha this) = PMAX" "length (m_cos2kAlpha this) = PMAX"
  shows "m_sin2kAlpha (Hair this absorption lRoughness aRoughness ior) =
           (let s0 = sin (2 / 180); c0 = sqrt (1 - s0 * s0)
            in [s0, 2 * c0 * s0, 2 * (c0 * c0 - s0 * s0) * (2 * c0 * s0)])"
    and "m_cos2kAlpha (Hair this absorption lRoughness aRoughness ior) =
           (let s0 = sin (2 / 180); c0 = sqrt (1 - s0 * s0)
            in [c0, c0 * c0 - s0 * s0,
                (c0 * c0 - s0 * s0) * (c0 * c0 - s0 * s0) - 2 * c0 * s0 * (2 * c0 * s0)])"
proof -
  obtain a b c where s: "m_sin2kAlpha this = [a, b, c]"
    using assms by (auto simp: PMAX_def length_Suc_conv eval_nat_numeral)
  obtain a' b' c' where c: "m_cos2kAlpha this = [a', b', c']"
    using assms by (auto simp: PMAX_def length_Suc_conv eval_nat_numeral)
  define s0 :: real where "s0 = sin (2 / 180)"
  have "s0 * s0 < 1 * 1"
    unfolding s0_def using sin_alpha_bounds by (intro mult_strict_mono) simp_all
  then have c0: "ssqrt (1 - SQR s0) = sqrt (1 - s0 * s0)"
    by (simp add: ssqrt_def SQR_def)
  have "(m_sin2kAlpha (Hair this absorption lRoughness aRoughness ior),
         m_cos2kAlpha (Hair this absorption lRoughness aRoughness ior)) =
        (let c0 = sqrt (1 - s0 * s0)
         in ([s0, 2 * c0 * s0, 2 * (c0 * c0 - s0 * s0) * (2 * c0 * s0)],
         [c0, c0 * c0 - s0 * s0,
           (c0 * c0 - s0 * s0) * (c0 * c0 - s0 * s0) - 2 * c0 * s0 * (2 * c0 * s0)]))"
    unfolding alpha_Hair_raw s c Let_def Hair_alpha_loop_1 s0_def[symmetric]
    by (simp add: c0) (simp add: SQR_def)
  then show "m_sin2kAlpha (Hair this absorption lRoughness aRoughness ior) =
           (let s0 = sin (2 / 180); c0 = sqrt (1 - s0 * s0)
            in [s0, 2 * c0 * s0, 2 * (c0 * c0 - s0 * s0) * (2 * c0 * s0)])"
    and "m_cos2kAlpha (Hair this absorption lRoughness aRoughness ior) =
           (let s0 = sin (2 / 180); c0 = sqrt (1 - s0 * s0)
            in [c0, c0 * c0 - s0 * s0,
                (c0 * c0 - s0 * s0) * (c0 * c0 - s0 * s0) - 2 * c0 * s0 * (2 * c0 * s0)])"
    by (simp_all add: Let_def s0_def)
qed

lemma abs_mult_le:
  fixes x y a b :: real
  assumes "\<bar>x\<bar> \<le> a" "\<bar>y\<bar> \<le> b"
  shows "\<bar>x * y\<bar> \<le> a * b"
proof -
  have "0 \<le> a" using assms(1) by linarith
  then show ?thesis
    unfolding abs_mult using assms by (intro mult_mono) simp_all
qed

lemma sq_le_imp_le:
  fixes x k :: real
  assumes "x * x \<le> k * k" "0 \<le> k"
  shows "x \<le> k"
  using assms power2_le_imp_le[of x k] by (simp add: power2_eq_square)

lemma tilt_first:
  fixes s0 :: real
  assumes s0: "\<bar>s0\<bar> \<le> 1 / 32"
  defines "c0 \<equiv> f32_sqrt (f32_sub 1 (f32_mul s0 s0))"
  shows "\<bar>s0\<^sup>2 + c0\<^sup>2 - 1\<bar> \<le> 5 / 2 ^ 24"
proof -
  define eps :: real where "eps = 1 / 2 ^ 24"
  have eps: "eps = 1 / 16777216"
    by (simp add: eps_def)
  define a where "a = f32_mul s0 s0"
  define b where "b = f32_sub 1 a"
  have ss: "\<bar>s0 * s0\<bar> \<le> 1 / 1024"
    using abs_mult_le[OF s0 s0] by simp
  then have "\<bar>s0 * s0\<bar> < 2" by linarith
  then have ea: "\<bar>a - s0 * s0\<bar> \<le> eps"
    unfolding a_def f32_mul_def eps_def by (rule f32_round_error_small)
  have a0: "0 \<le> a"
    unfolding a_def f32_mul_def by (intro f32_round_nonneg) simp
  have a1: "a \<le> 1 / 512"
    using ea ss eps by linarith
  have "\<bar>1 - a\<bar> < 2" using a0 a1 by linarith
  then have eb: "\<bar>b - (1 - a)\<bar> \<le> eps"
    unfolding b_def f32_sub_def eps_def by (rule f32_round_error_small)
  have b0: "1 / 2 \<le> b" and b1: "b \<le> 1 + eps"
    using eb a0 a1 eps by linarith+
  define q where "q = sqrt b"
  have q0: "0 \<le> q" using b0 by (simp add: q_def)
  have qq: "q * q = b"
    using b0 by (simp add: q_def)
  have "(1 + eps) * (1 + eps) = 1 + 2 * eps + eps * eps"
    by (simp add: algebra_simps)
  moreover have "0 \<le> eps * eps" "0 \<le> eps"
    by (simp_all add: eps)
  ultimately have "b \<le> (1 + eps) * (1 + eps)"
    using b1 by linarith
  then have "q * q \<le> (1 + eps) * (1 + eps)"
    by (simp only: qq)
  then have q1: "q \<le> 1 + eps"
    by (rule sq_le_imp_le) (simp add: eps)
  have "0 < b" using b0 by linarith
  then have c0: "c0 = f32_round q"
    by (simp add: c0_def f32_sqrt_def ssqrt_def q_def a_def b_def)
  have "\<bar>q\<bar> < 2" using q0 q1 eps by linarith
  then have ec: "\<bar>c0 - q\<bar> \<le> eps"
    unfolding c0 eps_def by (rule f32_round_error_small)
  have "\<bar>c0 + q\<bar> \<le> 3"
    using ec q0 q1 eps by linarith
  then have "\<bar>(c0 - q) * (c0 + q)\<bar> \<le> eps * 3"
    by (rule abs_mult_le[OF ec])
  moreover have "(c0 - q) * (c0 + q) = c0 * c0 - b"
    by (simp add: qq[symmetric] algebra_simps)
  ultimately have ecc: "\<bar>c0 * c0 - b\<bar> \<le> 3 * eps"
    by simp
  have "s0\<^sup>2 + c0\<^sup>2 - 1 = (s0 * s0 - a) + (b - (1 - a)) + (c0 * c0 - b)"
    by (simp add: power2_eq_square)
  then have "\<bar>s0\<^sup>2 + c0\<^sup>2 - 1\<bar> \<le> 5 * eps"
    using ea eb ecc by linarith
  then show ?thesis
    by (simp add: eps_def)
qed

lemma tilt_step:
  fixes s c E :: real
  assumes e: "\<bar>s\<^sup>2 + c\<^sup>2 - 1\<bar> \<le> E" and E: "E \<le> 1 / 100" and s: "\<bar>s\<bar> \<le> 1 / 7"
  defines "s' \<equiv> f32_mul (f32_mul 2 c) s"
    and "c' \<equiv> f32_sub (f32_mul c c) (f32_mul s s)"
  shows "\<bar>s'\<^sup>2 + c'\<^sup>2 - 1\<bar> \<le> 2 * E + E * E + 9 / 2 ^ 24"
    and "\<bar>s'\<bar> \<le> 203 / 100 * \<bar>s\<bar> + 1 / 2 ^ 24"
proof -
  define eps :: real where "eps = 1 / 2 ^ 24"
  have eps: "eps = 1 / 16777216"
    by (simp add: eps_def)
  define u where "u = s * s + c * c - 1"
  have u: "\<bar>u\<bar> \<le> E" using e by (simp add: u_def power2_eq_square)
  have E0: "0 \<le> E" using u by linarith
  have s2: "0 \<le> s * s" "0 \<le> c * c" by simp_all
  have ss: "\<bar>s * s\<bar> \<le> 1 / 49"
    using abs_mult_le[OF s s] by simp
  have cc: "c * c \<le> 101 / 100"
    using u E s2 unfolding u_def by linarith
  then have "c * c \<le> (101 / 100) * (101 / 100)" "(- c) * (- c) \<le> (101 / 100) * (101 / 100)"
    by simp_all
  then have "c \<le> 101 / 100" "- c \<le> 101 / 100"
    by (simp_all only: sq_le_imp_le[where k = "101 / 100"] divide_nonneg_nonneg zero_le_numeral)
  then have c1: "\<bar>c\<bar> \<le> 101 / 100"
    by linarith
  define t where "t = f32_mul 2 c"
  have "\<bar>2 * c\<bar> < 4" using c1 by linarith
  then have "\<bar>t - 2 * c\<bar> \<le> 1 / 2 ^ 23"
    unfolding t_def f32_mul_def by (rule f32_round_error_4)
  then have et: "\<bar>t - 2 * c\<bar> \<le> 2 * eps"
    by (simp add: eps_def)
  have t1: "\<bar>t\<bar> \<le> 203 / 100"
    using et c1 eps by linarith
  have ts: "\<bar>t * s\<bar> \<le> (203 / 100) * \<bar>s\<bar>"
    unfolding abs_mult using t1 by (intro mult_right_mono) simp_all
  then have "\<bar>t * s\<bar> < 2" using s by linarith
  have s't: "s' = f32_round (t * s)"
    by (simp add: s'_def t_def f32_mul_def)
  have es: "\<bar>s' - t * s\<bar> \<le> eps"
    unfolding s't eps_def by (rule f32_round_error_small) fact
  have "\<bar>s'\<bar> \<le> 203 / 100 * \<bar>s\<bar> + eps"
    using es ts by linarith
  then show sb: "\<bar>s'\<bar> \<le> 203 / 100 * \<bar>s\<bar> + 1 / 2 ^ 24"
    by (simp only: eps_def)
  define S where "S = 2 * c * s"
  define C where "C = c * c - s * s"
  have "\<bar>(t - 2 * c) * s\<bar> \<le> (2 * eps) * (1 / 7)"
    by (rule abs_mult_le[OF et s])
  moreover have "(t - 2 * c) * s = t * s - S"
    by (simp add: S_def algebra_simps)
  ultimately have "\<bar>t * s - S\<bar> \<le> eps"
    using eps by simp
  then have ds: "\<bar>s' - S\<bar> \<le> 2 * eps"
    using es by linarith
  define p where "p = f32_mul c c"
  define q where "q = f32_mul s s"
  have "\<bar>c * c\<bar> < 2" using cc s2 by linarith
  then have ep: "\<bar>p - c * c\<bar> \<le> eps"
    unfolding p_def f32_mul_def eps_def by (rule f32_round_error_small)
  have "\<bar>s * s\<bar> < 2" using ss by linarith
  then have eq: "\<bar>q - s * s\<bar> \<le> eps"
    unfolding q_def f32_mul_def eps_def by (rule f32_round_error_small)
  have "\<bar>p - q\<bar> < 2"
    using ep eq cc s2 ss eps by linarith
  moreover have c'pq: "c' = f32_round (p - q)"
    by (simp add: c'_def p_def q_def f32_sub_def)
  ultimately have "\<bar>c' - (p - q)\<bar> \<le> eps"
    unfolding c'pq eps_def by (intro f32_round_error_small)
  then have dc: "\<bar>c' - C\<bar> \<le> 3 * eps"
    using ep eq unfolding C_def by linarith
  have Sb: "\<bar>S\<bar> \<le> 3 / 10"
  proof -
    have "\<bar>2 * c\<bar> \<le> 202 / 100" using c1 by linarith
    then have "\<bar>(2 * c) * s\<bar> \<le> (202 / 100) * (1 / 7)"
      by (rule abs_mult_le[OF _ s])
    then show ?thesis by (simp add: S_def)
  qed
  have Cb: "\<bar>C\<bar> \<le> 101 / 100"
    using cc s2 ss unfolding C_def by linarith
  have unit: "S * S + C * C - 1 = u * (2 + u)"
    by (simp add: S_def C_def u_def algebra_simps)
  have "\<bar>2 + u\<bar> \<le> 2 + E" using u by linarith
  then have "\<bar>u * (2 + u)\<bar> \<le> E * (2 + E)"
    by (rule abs_mult_le[OF u])
  moreover have "E * (2 + E) = 2 * E + E * E"
    by (simp add: algebra_simps)
  ultimately have A: "\<bar>S * S + C * C - 1\<bar> \<le> 2 * E + E * E"
    by (simp only: unit)
  have "\<bar>s' + S\<bar> \<le> 1"
    using ds Sb eps by linarith
  then have "\<bar>(s' - S) * (s' + S)\<bar> \<le> (2 * eps) * 1"
    by (rule abs_mult_le[OF ds])
  moreover have "(s' - S) * (s' + S) = s' * s' - S * S"
    by (simp add: algebra_simps)
  ultimately have B: "\<bar>s' * s' - S * S\<bar> \<le> 2 * eps"
    by simp
  have "\<bar>c' + C\<bar> \<le> 7 / 3"
    using dc Cb eps by linarith
  then have "\<bar>(c' - C) * (c' + C)\<bar> \<le> (3 * eps) * (7 / 3)"
    by (rule abs_mult_le[OF dc])
  moreover have "(c' - C) * (c' + C) = c' * c' - C * C"
    by (simp add: algebra_simps)
  ultimately have D: "\<bar>c' * c' - C * C\<bar> \<le> 7 * eps"
    by simp
  have "s'\<^sup>2 + c'\<^sup>2 - 1 = (S * S + C * C - 1) + (s' * s' - S * S) + (c' * c' - C * C)"
    by (simp add: power2_eq_square)
  then have "\<bar>s'\<^sup>2 + c'\<^sup>2 - 1\<bar> \<le> 2 * E + E * E + 9 * eps"
    using A B D by linarith
  then show "\<bar>s'\<^sup>2 + c'\<^sup>2 - 1\<bar> \<le> 2 * E + E * E + 9 / 2 ^ 24"
    by (simp add: eps_def)
qed

lemma Hair_alpha_loop_f32_1:
  "Hair_alpha_loop_f32 1 (s, c) =
     (let s1 = s[1 := f32_mul (f32_mul 2 (c ! 0)) (s ! 0)];
          c1 = c[1 := f32_sub (f32_mul (c ! 0) (c ! 0)) (f32_mul (s ! 0) (s ! 0))]
      in (s1[2 := f32_mul (f32_mul 2 (c1 ! 1)) (s1 ! 1)],
          c1[2 := f32_sub (f32_mul (c1 ! 1) (c1 ! 1)) (f32_mul (s1 ! 1) (s1 ! 1))]))"
  by (subst Hair_alpha_loop_f32.simps, subst Hair_alpha_loop_f32.simps,
      subst Hair_alpha_loop_f32.simps) (simp add: PMAX_def Let_def numeral_2_eq_2)

lemma Hair_alpha_f32_list:
  assumes "length s = PMAX" "length c = PMAX"
  shows "Hair_alpha_f32 s0 s c =
     (let c0 = f32_sqrt (f32_sub 1 (f32_mul s0 s0));
          s1 = f32_mul (f32_mul 2 c0) s0;
          c1 = f32_sub (f32_mul c0 c0) (f32_mul s0 s0);
          s2 = f32_mul (f32_mul 2 c1) s1;
          c2 = f32_sub (f32_mul c1 c1) (f32_mul s1 s1)
      in ([s0, s1, s2], [c0, c1, c2]))"
proof -
  obtain a b d where s: "s = [a, b, d]"
    using assms by (auto simp: PMAX_def length_Suc_conv eval_nat_numeral)
  obtain a' b' d' where c: "c = [a', b', d']"
    using assms by (auto simp: PMAX_def length_Suc_conv eval_nat_numeral)
  show ?thesis
    unfolding Hair_alpha_f32_def s c Let_def Hair_alpha_loop_f32_1 by simp
qed

lemma Hair_alpha_f32_unit:
  assumes len: "length s = PMAX" "length c = PMAX" and s0: "\<bar>s0\<bar> \<le> 1 / 32" and i: "i < PMAX"
  shows "\<bar>(fst (Hair_alpha_f32 s0 s c) ! i)\<^sup>2 + (snd (Hair_alpha_f32 s0 s c) ! i)\<^sup>2 - 1\<bar> \<le> 1 / 2 ^ 18"
proof -
  define eps :: real where "eps = 1 / 2 ^ 24"
  have eps: "eps = 1 / 16777216"
    by (simp add: eps_def)
  define c0 where "c0 = f32_sqrt (f32_sub 1 (f32_mul s0 s0))"
  define s1 where "s1 = f32_mul (f32_mul 2 c0) s0"
  define c1 where "c1 = f32_sub (f32_mul c0 c0) (f32_mul s0 s0)"
  define s2 where "s2 = f32_mul (f32_mul 2 c1) s1"
  define c2 where "c2 = f32_sub (f32_mul c1 c1) (f32_mul s1 s1)"
  have eq: "Hair_alpha_f32 s0 s c = ([s0, s1, s2], [c0, c1, c2])"
    by (simp only: Hair_alpha_f32_list[OF len] Let_def c0_def s1_def c1_def s2_def c2_def)
  have "\<bar>s0\<^sup>2 + c0\<^sup>2 - 1\<bar> \<le> 5 / 2 ^ 24"
    unfolding c0_def by (rule tilt_first[OF s0])
  then have e0: "\<bar>s0\<^sup>2 + c0\<^sup>2 - 1\<bar> \<le> 5 * eps"
    by (simp add: eps_def)
  have E0: "5 * eps \<le> 1 / 100" "\<bar>s0\<bar> \<le> 1 / 7"
    using s0 by (simp_all add: eps)
  have "\<bar>s1\<^sup>2 + c1\<^sup>2 - 1\<bar> \<le> 2 * (5 * eps) + (5 * eps) * (5 * eps) + 9 / 2 ^ 24"
    unfolding s1_def c1_def by (rule tilt_step(1)[OF e0 E0])
  moreover have "2 * (5 * eps) + (5 * eps) * (5 * eps) + 9 / 2 ^ 24 \<le> 20 * eps"
    by (simp add: eps)
  ultimately have e1: "\<bar>s1\<^sup>2 + c1\<^sup>2 - 1\<bar> \<le> 20 * eps"
    by linarith
  have "\<bar>s1\<bar> \<le> 203 / 100 * \<bar>s0\<bar> + 1 / 2 ^ 24"
    unfolding s1_def by (rule tilt_step(2)[OF e0 E0])
  then have E1: "20 * eps \<le> 1 / 100" "\<bar>s1\<bar> \<le> 1 / 7"
    using s0 by (simp_all add: eps)
  have "\<bar>s2\<^sup>2 + c2\<^sup>2 - 1\<bar> \<le> 2 * (20 * eps) + (20 * eps) * (20 * eps) + 9 / 2 ^ 24"
    unfolding s2_def c2_def by (rule tilt_step(1)[OF e1 E1])
  moreover have "2 * (20 * eps) + (20 * eps) * (20 * eps) + 9 / 2 ^ 24 \<le> 64 * eps"
    by (simp add: eps)
  ultimately have e2: "\<bar>s2\<^sup>2 + c2\<^sup>2 - 1\<bar> \<le> 64 * eps"
    by linarith
  have b: "5 * eps \<le> 1 / 2 ^ 18" "20 * eps \<le> 1 / 2 ^ 18" "64 * eps \<le> 1 / 2 ^ 18"
    by (simp_all add: eps)
  have u: "\<bar>s0\<^sup>2 + c0\<^sup>2 - 1\<bar> \<le> 1 / 2 ^ 18" "\<bar>s1\<^sup>2 + c1\<^sup>2 - 1\<bar> \<le> 1 / 2 ^ 18"
    "\<bar>s2\<^sup>2 + c2\<^sup>2 - 1\<bar> \<le> 1 / 2 ^ 18"
    using e0 e1 e2 b by linarith+
  have "i = 0 \<or> i = 1 \<or> i = 2"
    using i by (auto simp: PMAX_def)
  then show ?thesis
    using u by (auto simp: eq)
qed

text \<open>
  Claim C9, as stated: the entries of \<^verbatim>\<open>m_v\<close> are strictly positive for every
  longitudinal roughness greater than 0.  For the binary32 roughness \<open>2\<^sup>-\<^sup>1\<^sup>0\<^sup>0\<close> the sum
  \<^verbatim>\<open>0.726f * r + ...\<close> is below \<open>2\<^sup>-\<^sup>9\<^sup>6\<close>, its square underflows, and \<^verbatim>\<open>m_v[0]\<close> is 0.
\<close>
theorem Hair_variance_counterexample:
  "Hair_v_f32 (\<lambda>x. f32_round (x ^ 20)) [0, 0, 0, 0] (1 / 2 ^ 100) ! 0 = 0"
proof -
  define r :: real where "r = 1 / 2 ^ 100"
  have c1: "\<bar>f32_round 0.726\<bar> \<le> 2 / 2 ^ 0"
    by (rule f32_round_le_twice) simp_all
  have "\<bar>f32_round 0.726 * r\<bar> \<le> 2 * (1 / 2 ^ 100)"
    unfolding abs_mult using c1 by (intro mult_mono) (simp_all add: r_def)
  then have "\<bar>f32_round 0.726 * r\<bar> \<le> 1 / 2 ^ 99"
    by simp
  then have "\<bar>f32_mul (f32_round 0.726) r\<bar> \<le> 2 / 2 ^ 99"
    unfolding f32_mul_def by (rule f32_round_le_twice) simp
  then have t1: "\<bar>f32_mul (f32_round 0.726) r\<bar> \<le> 1 / 2 ^ 98"
    by simp
  have rr: "f32_mul r r = 0"
    unfolding f32_mul_def by (rule f32_round_underflow) (simp add: r_def)
  have t2: "f32_mul (f32_round 0.812) (f32_mul r r) = 0"
    by (simp only: rr f32_mul_zero)
  have "f32_round (r ^ 20) = 0"
    by (rule f32_round_underflow) (simp add: r_def power_one_over)
  then have t3: "f32_mul (f32_round 3.7) (f32_round (r ^ 20)) = 0"
    by (simp only: f32_mul_zero)
  have "\<bar>f32_add (f32_mul (f32_round 0.726) r) 0\<bar> \<le> 2 / 2 ^ 98"
    unfolding f32_add_def using t1 by (intro f32_round_le_twice) simp_all
  then have s1: "\<bar>f32_add (f32_mul (f32_round 0.726) r) 0\<bar> \<le> 1 / 2 ^ 97"
    by simp
  define s where "s = f32_add (f32_add (f32_mul (f32_round 0.726) r) 0) 0"
  have "\<bar>s\<bar> \<le> 2 / 2 ^ 97"
    unfolding s_def f32_add_def[of "f32_add _ _"] using s1 by (intro f32_round_le_twice) simp_all
  then have sb: "\<bar>s\<bar> \<le> 1 / 2 ^ 96"
    by simp
  have "\<bar>s\<bar> * \<bar>s\<bar> \<le> (1 / 2 ^ 96) * (1 / 2 ^ 96)"
    using sb by (intro mult_mono) simp_all
  then have "\<bar>s * s\<bar> < 1 / 2 ^ 150"
    by (simp add: abs_mult)
  then have v0: "f32_mul s s = 0"
    unfolding f32_mul_def by (rule f32_round_underflow)
  have len: "length [0, 0, 0, 0 :: real] = PMAX + 1"
    by (simp add: PMAX_def)
  have "Hair_v_f32 (\<lambda>x. f32_round (x ^ 20)) [0, 0, 0, 0] r ! 0 = f32_mul s s"
    by (simp only: Hair_v_f32_list[OF len] Let_def t2 t3 s_def nth_Cons_0)
  then show ?thesis
    by (simp only: v0 r_def)
qed

text \<open>
  Claim C9, amended: in binary32 arithmetic, for every longitudinal roughness in
  \<open>[2\<^sup>-\<^sup>7\<^sup>2, 1]\<close> (and a value of \<^verbatim>\<open>Pow<20>\<close> in \<open>[0, 1]\<close>) the \<open>PMAX + 1\<close> entries of the
  variance array \<^verbatim>\<open>m_v\<close> are strictly positive; and for every value of \<^verbatim>\<open>sin(alpha)\<close> of
  magnitude at most \<open>1/32\<close> the three cuticle-tilt pairs of the angle-doubling
  recurrence satisfy \<open>sin\<^sup>2 + cos\<^sup>2 = 1\<close> to floating tolerance, within \<open>2\<^sup>-\<^sup>1\<^sup>8\<close>.
\<close>
theorem Hair_constructor_invariants:
  assumes "length v = PMAX + 1" "length s = PMAX" "length c = PMAX"
    and "1 / 2 ^ 72 \<le> lRoughness" "lRoughness \<le> 1"
    and "0 \<le> Pow20f lRoughness" "Pow20f lRoughness \<le> 1"
    and "\<bar>sin_alpha\<bar> \<le> 1 / 32"
  shows "(\<forall>p\<le>PMAX. 0 < Hair_v_f32 Pow20f v lRoughness ! p)
       \<and> (\<forall>i<PMAX. \<bar>(fst (Hair_alpha_f32 sin_alpha s c) ! i)\<^sup>2
                       + (snd (Hair_alpha_f32 sin_alpha s c) ! i)\<^sup>2 - 1\<bar> \<le> 1 / 2 ^ 18)"
  using Hair_v_f32_pos[of v lRoughness Pow20f, OF assms(1,4,6)]
    Hair_alpha_f32_unit[of s c sin_alpha, OF assms(2,3,8)] by blast

theorem Hair_constructor_invariants_witness:
  "0 < Hair_v_f32 (\<lambda>x. f32_round (x ^ 20)) [0, 0, 0, 0] (3 / 10) ! 1
   \<and> \<bar>(fst (Hair_alpha_f32 (1 / 64) [0, 0, 0] [0, 0, 0]) ! 2)\<^sup>2
        + (snd (Hair_alpha_f32 (1 / 64) [0, 0, 0] [0, 0, 0]) ! 2)\<^sup>2 - 1\<bar> \<le> 1 / 2 ^ 18"
proof -
  have len: "length [0, 0, 0, 0 :: real] = PMAX + 1" "length [0, 0, 0 :: real] = PMAX"
    "length [0, 0, 0 :: real] = PMAX"
    by (simp_all add: PMAX_def)
  have r: "(1::real) / 2 ^ 72 \<le> 3 / 10" "(3 / 10 :: real) \<le> 1"
    by simp_all
  have p0: "0 \<le> f32_round ((3 / 10 :: real) ^ 20)"
    by (intro f32_round_nonneg) simp
  have "((3 / 10 :: real) ^ 20) \<le> 1 / 2 ^ 1"
    by (simp add: power_divide)
  then have "\<bar>(3 / 10 :: real) ^ 20\<bar> \<le> 1 / 2 ^ 1"
    by simp
  then have "\<bar>f32_round ((3 / 10 :: real) ^ 20)\<bar> \<le> 2 / 2 ^ 1"
    by (rule f32_round_le_twice) simp
  then have p1: "f32_round ((3 / 10 :: real) ^ 20) \<le> 1"
    by simp
  have a: "\<bar>1 / 64 :: real\<bar> \<le> 1 / 32"
    by simp
  have idx: "(1::nat) \<le> PMAX" "(2::nat) < PMAX"
    by (simp_all add: PMAX_def)
  show ?thesis
    using Hair_constructor_invariants
      [where Pow20f = "\<lambda>x. f32_round (x ^ 20)" and lRoughness = "3 / 10" and sin_alpha = "1 / 64",
       OF len r p0 p1 a] idx
    by blast
qed

subsection \<open>The tilted longitudinal angle in Hair::sample\_f and in Hair::pdf\<close>

text \<open>
  Claim C2: the density that \<^verbatim>\<open>Hair::sample_f\<close> writes is the one \<^verbatim>\<open>Hair::pdf\<close> returns for
  the sampled direction.  When the sampled longitudinal angle is at grazing
  (\<open>sinThetaI = 1\<close>, \<open>cosThetaI = 0\<close>) and lobe 0 is selected, the tilt of
  \<^verbatim>\<open>Hair::sample_f\<close> leaves a negative \<^verbatim>\<open>cosThetaI\<close>, which it uses for the direction
  \<^verbatim>\<open>wi\<close> and for the density; \<^verbatim>\<open>Hair::pdf\<close> recovers from \<^verbatim>\<open>wi.x\<close> the cosine of opposite
  sign.
\<close>
theorem sample_f_tilt_negative:
  "(let this = Hair \<lparr>m_sigma = spectrum_of 0, m_lRoughness = 0, m_aRoughness = 0, m_eta = 0,
                      m_v = [0, 0, 0, 0], m_sin2kAlpha = [0, 0, 0], m_cos2kAlpha = [0, 0, 0],
                      m_scale = 0, m_etaSqr = 0\<rparr> (spectrum_of 0) (3 / 10) (3 / 10) (31 / 20);
        (sinThetaI, cosThetaI) = sample_f_tilt this 0 1 0
    in cosThetaI < 0 \<and> pdf_cosThetaI sinThetaI = - cosThetaI)"
proof -
  let ?h = "\<lparr>m_sigma = spectrum_of 0, m_lRoughness = 0, m_aRoughness = 0, m_eta = 0,
                      m_v = [0, 0, 0, 0], m_sin2kAlpha = [0, 0, 0], m_cos2kAlpha = [0, 0, 0],
                      m_scale = 0, m_etaSqr = 0\<rparr>"
  let ?H = "Hair ?h (spectrum_of 0) (3 / 10) (3 / 10) (31 / 20)"
  have len: "length (m_sin2kAlpha ?h) = PMAX" "length (m_cos2kAlpha ?h) = PMAX"
    by (simp_all add: PMAX_def)
  define s0 :: real where "s0 = sin (2 / 180)"
  define c0 where "c0 = sqrt (1 - s0 * s0)"
  define s1 where "s1 = 2 * c0 * s0"
  define c1 where "c1 = c0 * c0 - s0 * s0"
  have s0: "0 < s0" "s0 < 1"
    unfolding s0_def by (rule sin_alpha_bounds)+
  have "s0 * s0 < 1 * 1"
    using s0 by (intro mult_strict_mono) simp_all
  then have c0: "0 < c0" "c0 * c0 = 1 - s0 * s0"
    by (simp_all add: c0_def)
  have s1: "0 < s1"
    using s0 c0 by (simp add: s1_def)
  have "s1 * s1 + c1 * c1 = (s0 * s0 + c0 * c0) * (s0 * s0 + c0 * c0)"
    by (simp add: s1_def c1_def algebra_simps)
  then have unit: "1 - c1 * c1 = s1 * s1"
    by (simp add: c0(2))
  have S: "m_sin2kAlpha ?H ! 1 = s1" and C: "m_cos2kAlpha ?H ! 1 = c1"
    by (simp_all only: alpha_Hair_explicit[OF len] Let_def s0_def[symmetric] c0_def[symmetric]
        s1_def c1_def nth_Cons_Suc nth_Cons_0 One_nat_def)
  have t: "sample_f_tilt ?H 0 1 0 = (c1, - s1)"
    unfolding sample_f_tilt_def S C by simp
  have "0 < s1 * s1"
    using s1 by simp
  then have "ssqrt (1 - c1 * c1) = sqrt (s1 * s1)"
    unfolding unit by (simp add: ssqrt_def)
  then have "pdf_cosThetaI c1 = s1"
    using s1 by (simp add: pdf_cosThetaI_def Let_def SQR_def)
  then show ?thesis
    using s1 by (simp only: Let_def t prod.case) simp
qed

end
